theory Spec2Isabelle
  imports Main
begin

section \<open>JavaScript strings\<close>

text \<open>
  A JavaScript string is modelled as a list of 8-bit characters, read as the code units
  U+0000 to U+00FF (Latin-1). The built-in functions the repository calls are modelled
  on that range.
\<close>

definition is_space :: "char \<Rightarrow> bool" where
  \<comment> \<open>WhiteSpace and LineTerminator of ECMA-262 below U+0100: what \<open>trim\<close> strips and \<open>\s\<close> matches.\<close>
  "is_space c = (of_char c \<in> {9, 10, 11, 12, 13, 32, 160 :: nat})"

definition is_digit :: "char \<Rightarrow> bool" where
  \<comment> \<open>\<open>\d\<close>\<close>
  "is_digit c = (48 \<le> (of_char c :: nat) \<and> (of_char c :: nat) \<le> 57)"

definition is_lower_alnum :: "char \<Rightarrow> bool" where
  \<comment> \<open>\<open>[a-z0-9]\<close>\<close>
  "is_lower_alnum c =
     ((97 \<le> (of_char c :: nat) \<and> (of_char c :: nat) \<le> 122) \<or> is_digit c)"

definition toLowerCase_char :: "char \<Rightarrow> char" where
  "toLowerCase_char c =
     (let n = (of_char c :: nat)
      in if (65 \<le> n \<and> n \<le> 90) \<or> (192 \<le> n \<and> n \<le> 222 \<and> n \<noteq> 215)
         then char_of (n + 32) else c)"

definition toLowerCase :: "string \<Rightarrow> string" where
  "toLowerCase s = map toLowerCase_char s"

definition trim :: "string \<Rightarrow> string" where
  "trim s = rev (dropWhile is_space (rev (dropWhile is_space s)))"

function replace_runs :: "(char \<Rightarrow> bool) \<Rightarrow> string \<Rightarrow> string \<Rightarrow> string" where
  \<comment> \<open>\<open>s.replace(/[p]+/g, r)\<close>: every maximal run of characters of class \<open>p\<close> becomes \<open>r\<close>.\<close>
  "replace_runs p r [] = []"
| "replace_runs p r (c # cs) =
     (if p c then r @ replace_runs p r (dropWhile p cs) else c # replace_runs p r cs)"
  by pat_completeness auto
termination
  by (relation "measure (\<lambda>(p, r, s). length s)")
     (auto simp: length_dropWhile_le less_Suc_eq_le)

definition strip_hyphens :: "string \<Rightarrow> string" where
  \<comment> \<open>\<open>s.replace(/^-+|-+$/g, '')\<close>\<close>
  "strip_hyphens s =
     rev (dropWhile (\<lambda>c. c = CHR ''-'') (rev (dropWhile (\<lambda>c. c = CHR ''-'') s)))"

definition slugify :: "string \<Rightarrow> string" where
  "slugify v =
     strip_hyphens (replace_runs (\<lambda>c. \<not> is_lower_alnum c) ''-'' (toLowerCase (trim v)))"

text \<open>
  The slug as the specification words it, written without the functions above: the title
  is lower-cased; white space is trimmed at both ends; reading from the left, every
  maximal run of characters outside \<open>[a-z0-9]\<close> becomes one hyphen; hyphens are
  trimmed at both ends.
\<close>

fun trim_leading :: "(char \<Rightarrow> bool) \<Rightarrow> string \<Rightarrow> string" where
  "trim_leading p [] = []"
| "trim_leading p (c # cs) = (if p c then trim_leading p cs else c # cs)"

fun trim_trailing :: "(char \<Rightarrow> bool) \<Rightarrow> string \<Rightarrow> string" where
  "trim_trailing p [] = []"
| "trim_trailing p (c # cs) =
     (if p c \<and> trim_trailing p cs = [] then [] else c # trim_trailing p cs)"

fun hyphenate_runs :: "bool \<Rightarrow> string \<Rightarrow> string" where
  \<comment> \<open>the flag says that the character before was outside \<open>[a-z0-9]\<close>\<close>
  "hyphenate_runs in_run [] = []"
| "hyphenate_runs in_run (c # cs) =
     (if is_lower_alnum c then c # hyphenate_runs False cs
      else if in_run then hyphenate_runs True cs
      else CHR ''-'' # hyphenate_runs True cs)"

definition spec_slug :: "string \<Rightarrow> string" where
  "spec_slug t =
     trim_trailing (\<lambda>c. c = CHR ''-'')
       (trim_leading (\<lambda>c. c = CHR ''-'')
          (hyphenate_runs False
             (trim_trailing is_space (trim_leading is_space (map toLowerCase_char t)))))"

section \<open>Regular expressions of the repository\<close>

text \<open>
  Every regular expression the repository matches against a whole string
  (\<open>^...$\<close>) is a sequence of character classes, each taken once, optionally
  (\<open>?\<close>) or one or more times (\<open>+\<close>). \<open>rx_match\<close> is the backtracking matcher,
  greedy first, and returns the substring each class matched.
\<close>

datatype quant = One | Opt | Plus

type_synonym atom = "(char \<Rightarrow> bool) \<times> quant"

fun rx_match :: "atom list \<Rightarrow> string \<Rightarrow> string list option" where
  "rx_match [] s = (if s = [] then Some [] else None)"
| "rx_match ((p, One) # as) s =
     (case s of
        [] \<Rightarrow> None
      | c # cs \<Rightarrow> if p c then map_option ((#) [c]) (rx_match as cs) else None)"
| "rx_match ((p, Opt) # as) s =
     (case (case s of
              [] \<Rightarrow> None
            | c # cs \<Rightarrow> if p c then map_option ((#) [c]) (rx_match as cs) else None) of
        Some ms \<Rightarrow> Some ms
      | None \<Rightarrow> map_option ((#) []) (rx_match as s))"
| "rx_match ((p, Plus) # as) s =
     (case s of
        [] \<Rightarrow> None
      | c # cs \<Rightarrow>
          if p c then
            (case rx_match ((p, Plus) # as) cs of
               Some (m # ms) \<Rightarrow> Some ((c # m) # ms)
             | _ \<Rightarrow> map_option ((#) [c]) (rx_match as cs))
          else None)"

definition rx_test :: "atom list \<Rightarrow> string \<Rightarrow> bool" where
  "rx_test rx s = (rx_match rx s \<noteq> None)"

definition in_range :: "char \<Rightarrow> char \<Rightarrow> char \<Rightarrow> bool" where
  \<comment> \<open>the class \<open>[lo-hi]\<close>\<close>
  "in_range lo hi c =
     ((of_char lo :: nat) \<le> of_char c \<and> (of_char c :: nat) \<le> of_char hi)"

section \<open>Numbers and strings\<close>

definition digit_val :: "char \<Rightarrow> nat" where
  "digit_val c = of_char c - 48"

definition parseInt :: "string \<Rightarrow> nat" where
  \<comment> \<open>\<open>parseInt(s, 10)\<close> on a string of decimal digits\<close>
  "parseInt s = foldl (\<lambda>n c. 10 * n + digit_val c) 0 s"

definition digit_char :: "nat \<Rightarrow> char" where
  "digit_char n = char_of (48 + n mod 10)"

fun toString_nat :: "nat \<Rightarrow> string" where
  \<comment> \<open>\<open>n.toString()\<close> for a non-negative integer\<close>
  "toString_nat n =
     (if n < 10 then [digit_char n] else toString_nat (n div 10) @ [digit_char n])"

declare toString_nat.simps [simp del]

definition padStart :: "nat \<Rightarrow> char \<Rightarrow> string \<Rightarrow> string" where
  \<comment> \<open>\<open>s.padStart(n, c)\<close>\<close>
  "padStart n c s = replicate (n - length s) c @ s"

section \<open>normalizeTime\<close>

definition time_colon_rx :: "atom list" where
  \<comment> \<open>\<open>/^([0-2]?\d):([0-5]\d)$/\<close>\<close>
  "time_colon_rx =
     [(in_range (CHR ''0'') (CHR ''2''), Opt), (is_digit, One),
      (\<lambda>c. c = CHR '':'', One),
      (in_range (CHR ''0'') (CHR ''5''), One), (is_digit, One)]"

definition time_compact_rx :: "atom list" where
  \<comment> \<open>\<open>/^([0-2]?\d)([0-5]\d)$/\<close>\<close>
  "time_compact_rx =
     [(in_range (CHR ''0'') (CHR ''2''), Opt), (is_digit, One),
      (in_range (CHR ''0'') (CHR ''5''), One), (is_digit, One)]"

definition normalizeTime :: "string \<Rightarrow> string option" where
  "normalizeTime v =
     (let trimmed = trim v in
      case rx_match time_colon_rx trimmed of
        Some [h1, h2, _, m1, m2] \<Rightarrow>
          (let hour = parseInt (h1 @ h2) in
           if hour > 23 then None
           else Some (padStart 2 (CHR ''0'') (toString_nat hour) @ '':'' @ m1 @ m2))
      | _ \<Rightarrow>
          (case rx_match time_compact_rx trimmed of
             Some [h1, h2, m1, m2] \<Rightarrow>
               (let hour = parseInt (h1 @ h2) in
                if hour > 23 then None
                else Some (padStart 2 (CHR ''0'') (toString_nat hour) @ '':'' @ m1 @ m2))
           | _ \<Rightarrow> None))"

text \<open>
  Time normalization as the specification words it, on the value as given: the two
  accepted shapes in their order, the hour in 0..23 and the minute in 00..59, the result
  with a two-digit hour.
\<close>

definition spec_hhmm :: "char \<Rightarrow> char \<Rightarrow> char \<Rightarrow> char \<Rightarrow> string option" where
  "spec_hhmm h1 h2 m1 m2 =
     (if is_digit h1 \<and> is_digit h2 \<and> is_digit m1 \<and> is_digit m2
         \<and> 10 * digit_val h1 + digit_val h2 \<le> 23
         \<and> 10 * digit_val m1 + digit_val m2 \<le> 59
      then Some [h1, h2, CHR '':'', m1, m2] else None)"

fun spec_time_colon :: "string \<Rightarrow> string option" where
  "spec_time_colon [h, c, m1, m2] =
     (if c = CHR '':'' then spec_hhmm (CHR ''0'') h m1 m2 else None)"
| "spec_time_colon [h1, h2, c, m1, m2] =
     (if c = CHR '':'' then spec_hhmm h1 h2 m1 m2 else None)"
| "spec_time_colon _ = None"

fun spec_time_compact :: "string \<Rightarrow> string option" where
  "spec_time_compact [h, m1, m2] = spec_hhmm (CHR ''0'') h m1 m2"
| "spec_time_compact [h1, h2, m1, m2] = spec_hhmm h1 h2 m1 m2"
| "spec_time_compact _ = None"

definition spec_time :: "string \<Rightarrow> string option" where
  "spec_time s =
     (case spec_time_colon s of Some r \<Rightarrow> Some r | None \<Rightarrow> spec_time_compact s)"

section \<open>Dates\<close>

text \<open>
  The time value of a JavaScript \<open>Date\<close> is a number of milliseconds since
  1970-01-01T00:00:00Z, or NaN (here \<open>None\<close>). The calendar functions are those of
  ECMA-262 (Day, DayFromYear, YearFromTime, MonthFromTime, DateFromTime), on day numbers.
\<close>

definition msPerDay :: int where
  "msPerDay = 86400000"

definition DayFromYear :: "int \<Rightarrow> int" where
  "DayFromYear y =
     365 * (y - 1970) + (y - 1969) div 4 - (y - 1901) div 100 + (y - 1601) div 400"

definition DaysInYear :: "int \<Rightarrow> int" where
  "DaysInYear y =
     (if y mod 4 \<noteq> 0 then 365 else if y mod 100 \<noteq> 0 then 366
      else if y mod 400 \<noteq> 0 then 365 else 366)"

definition YearFromDay :: "int \<Rightarrow> int" where
  \<comment> \<open>the largest year \<open>y\<close> with \<open>DayFromYear y \<le> d\<close>, found from an estimate\<close>
  "YearFromDay d =
     (let y0 = 1970 + (400 * d) div 146097 in
      if d < DayFromYear y0 then y0 - 1
      else if DayFromYear (y0 + 1) \<le> d then y0 + 1
      else y0)"

definition month_start :: "int \<Rightarrow> int \<Rightarrow> int" where
  \<comment> \<open>the day within the year on which month \<open>m\<close> (0 is January) starts; \<open>l\<close> is 1 in a leap year\<close>
  "month_start l m =
     (if m = 0 then 0 else if m = 1 then 31 else if m = 2 then 59 + l
      else if m = 3 then 90 + l else if m = 4 then 120 + l else if m = 5 then 151 + l
      else if m = 6 then 181 + l else if m = 7 then 212 + l else if m = 8 then 243 + l
      else if m = 9 then 273 + l else if m = 10 then 304 + l else if m = 11 then 334 + l
      else 365 + l)"

definition MonthFromDay :: "int \<Rightarrow> int \<Rightarrow> int" where
  \<comment> \<open>the month (0 is January) of day \<open>dwy\<close> within a year\<close>
  "MonthFromDay l dwy =
     (if dwy < 31 then 0 else if dwy < 59 + l then 1 else if dwy < 90 + l then 2
      else if dwy < 120 + l then 3 else if dwy < 151 + l then 4 else if dwy < 181 + l then 5
      else if dwy < 212 + l then 6 else if dwy < 243 + l then 7 else if dwy < 273 + l then 8
      else if dwy < 304 + l then 9 else if dwy < 334 + l then 10 else 11)"

definition leap :: "int \<Rightarrow> int" where
  "leap y = DaysInYear y - 365"

definition civil_from_day :: "int \<Rightarrow> int \<times> int \<times> int" where
  \<comment> \<open>year, month (1 is January) and day of the month of a day number\<close>
  "civil_from_day d =
     (let y = YearFromDay d;
          dwy = d - DayFromYear y;
          m = MonthFromDay (leap y) dwy
      in (y, m + 1, dwy - month_start (leap y) m + 1))"

definition valid_date :: "int \<Rightarrow> int \<Rightarrow> int \<Rightarrow> bool" where
  "valid_date y m d =
     (1 \<le> m \<and> m \<le> 12 \<and> 1 \<le> d
      \<and> d \<le> month_start (leap y) m - month_start (leap y) (m - 1))"

definition day_from_civil :: "int \<Rightarrow> int \<Rightarrow> int \<Rightarrow> int" where
  \<comment> \<open>MakeDay\<close>
  "day_from_civil y m d = DayFromYear y + month_start (leap y) (m - 1) + d - 1"

definition pad_nat :: "nat \<Rightarrow> int \<Rightarrow> string" where
  "pad_nat w n = padStart w (CHR ''0'') (toString_nat (nat n))"

definition year_string :: "int \<Rightarrow> string" where
  \<comment> \<open>four digits for the years 0 to 9999, a sign and six digits otherwise\<close>
  "year_string y =
     (if 0 \<le> y \<and> y \<le> 9999 then pad_nat 4 y
      else (if y < 0 then ''-'' else ''+'') @ pad_nat 6 (abs y))"

definition toISOString :: "int \<Rightarrow> string" where
  "toISOString t =
     (let (y, m, d) = civil_from_day (t div msPerDay);
          ms = t mod msPerDay
      in year_string y @ ''-'' @ pad_nat 2 m @ ''-'' @ pad_nat 2 d @ ''T''
         @ pad_nat 2 (ms div 3600000) @ '':'' @ pad_nat 2 (ms div 60000 mod 60) @ '':''
         @ pad_nat 2 (ms div 1000 mod 60) @ ''.'' @ pad_nat 3 (ms mod 1000) @ ''Z'')"

definition split_T_first :: "string \<Rightarrow> string" where
  \<comment> \<open>\<open>s.split('T')[0]\<close>\<close>
  "split_T_first s = takeWhile (\<lambda>c. c \<noteq> CHR ''T'') s"

definition is_hyphen :: "char \<Rightarrow> bool" where
  "is_hyphen c = (c = CHR ''-'')"

definition is_sign :: "char \<Rightarrow> bool" where
  "is_sign c = (c = CHR ''+'' \<or> c = CHR ''-'')"

definition iso_date_rx :: "atom list" where
  \<comment> \<open>\<open>YYYY-MM-DD\<close>\<close>
  "iso_date_rx =
     [(is_digit, One), (is_digit, One), (is_digit, One), (is_digit, One), (is_hyphen, One),
      (is_digit, One), (is_digit, One), (is_hyphen, One), (is_digit, One), (is_digit, One)]"

definition iso_expanded_rx :: "atom list" where
  \<comment> \<open>\<open>+YYYYYY-MM-DD\<close> and \<open>-YYYYYY-MM-DD\<close>\<close>
  "iso_expanded_rx =
     [(is_sign, One), (is_digit, One), (is_digit, One), (is_digit, One), (is_digit, One),
      (is_digit, One), (is_digit, One), (is_hyphen, One),
      (is_digit, One), (is_digit, One), (is_hyphen, One), (is_digit, One), (is_digit, One)]"

definition make_date :: "int \<Rightarrow> int \<Rightarrow> int \<Rightarrow> int option" where
  "make_date y m d =
     (if valid_date y m d then Some (day_from_civil y m d * msPerDay) else None)"

definition parse_iso_date :: "string \<Rightarrow> int option" where
  \<comment> \<open>the date-only forms of the ECMA-262 date-time string format, read as UTC midnight\<close>
  "parse_iso_date s =
     (case rx_match iso_date_rx s of
        Some ms \<Rightarrow>
          make_date (int (parseInt (concat (take 4 ms))))
            (int (parseInt (concat (take 2 (drop 5 ms)))))
            (int (parseInt (concat (drop 8 ms))))
      | None \<Rightarrow>
          (case rx_match iso_expanded_rx s of
             Some ms \<Rightarrow>
               (let y = int (parseInt (concat (take 6 (drop 1 ms)))) in
                if concat (take 1 ms) = ''-'' \<and> y = 0 then None
                else make_date (if concat (take 1 ms) = ''-'' then - y else y)
                       (int (parseInt (concat (take 2 (drop 8 ms)))))
                       (int (parseInt (concat (drop 11 ms)))))
           | None \<Rightarrow> None))"

text \<open>
  Outside the date-time string format \<open>Date.parse\<close> is implementation-defined: what the
  engine does with any other string, and in which time zone, is a parameter.
\<close>

record platform =
  Date_parse_impl :: "string \<Rightarrow> int option"

definition Date_parse :: "platform \<Rightarrow> string \<Rightarrow> int option" where
  "Date_parse P s =
     (case parse_iso_date s of Some t \<Rightarrow> Some t | None \<Rightarrow> Date_parse_impl P s)"

definition new_Date :: "platform \<Rightarrow> string \<Rightarrow> int option" where
  \<comment> \<open>\<open>new Date(s).getTime()\<close>, NaN beyond TimeClip's range\<close>
  "new_Date P s =
     (case Date_parse P s of
        Some t \<Rightarrow> if abs t \<le> 8640000000000000 then Some t else None
      | None \<Rightarrow> None)"

definition iso_date_string :: "int \<Rightarrow> int \<Rightarrow> int \<Rightarrow> string" where
  \<comment> \<open>the date part of an ISO string\<close>
  "iso_date_string y m d = year_string y @ ''-'' @ pad_nat 2 m @ ''-'' @ pad_nat 2 d"

fun digits :: "nat \<Rightarrow> nat \<Rightarrow> string" where
  \<comment> \<open>the last \<open>w\<close> decimal digits of \<open>n\<close>\<close>
  "digits 0 n = []"
| "digits (Suc w) n = digits w (n div 10) @ [digit_char n]"

section \<open>The Event model\<close>

text \<open>
  The errors: one made by the repository's own code with \<open>new Error(message)\<close>; the
  validation error of mongoose, with the entry of each failing path and its message; an
  error thrown by the database driver.
\<close>

datatype js_error =
  Error string
| ValidationError "(string \<times> string) list"
| MongoError string

text \<open>
  A document field that is absent (or not of its schema type) is \<open>None\<close>.
  \<open>isModified_title\<close> is what \<open>doc.isModified('title')\<close> answers.
\<close>

record EventDocument =
  title :: "string option"
  slug :: "string option"
  description :: "string option"
  overview :: "string option"
  image_field :: "string option"
  venue :: "string option"
  location :: "string option"
  date :: "string option"
  time :: "string option"
  mode :: "string option"
  audience :: "string option"
  agenda :: "string list option"
  organizer :: "string option"
  tags :: "string list option"
  isModified_title :: bool

definition truthy :: "string option \<Rightarrow> bool" where
  \<comment> \<open>a string field in a condition: \<open>undefined\<close> and \<open>''\<close> are falsy\<close>
  "truthy v = (case v of None \<Rightarrow> False | Some s \<Rightarrow> s \<noteq> [])"

definition requiredStringFields :: "(string \<times> (EventDocument \<Rightarrow> string option)) list" where
  "requiredStringFields =
     [(''title'', title), (''description'', description), (''overview'', overview),
      (''image'', image_field), (''venue'', venue), (''location'', location),
      (''date'', date), (''time'', time), (''mode'', mode), (''audience'', audience),
      (''organizer'', organizer)]"

fun check_required ::
  "(string \<times> (EventDocument \<Rightarrow> string option)) list \<Rightarrow> EventDocument \<Rightarrow> js_error option" where
  "check_required [] doc = None"
| "check_required ((field, get) # fs) doc =
     (case get doc of
        None \<Rightarrow> Some (Error (field @ '' is required and must be a non-empty string.''))
      | Some v \<Rightarrow>
          if length (trim v) = 0
          then Some (Error (field @ '' is required and must be a non-empty string.''))
          else check_required fs doc)"

definition check_agenda :: "EventDocument \<Rightarrow> js_error option" where
  "check_agenda doc =
     (case agenda doc of
        None \<Rightarrow> Some (Error ''agenda is required and must contain at least one item.'')
      | Some xs \<Rightarrow>
          if length xs = 0
          then Some (Error ''agenda is required and must contain at least one item.'')
          else None)"

definition check_tags :: "EventDocument \<Rightarrow> js_error option" where
  "check_tags doc =
     (case tags doc of
        None \<Rightarrow> Some (Error ''tags is required and must contain at least one tag.'')
      | Some xs \<Rightarrow>
          if length xs = 0
          then Some (Error ''tags is required and must contain at least one tag.'')
          else None)"

text \<open>
  The steps of the hook that assign to the document return the document as they leave
  it, with the error handed to \<open>next\<close> if there is one.
\<close>

definition step_slug :: "EventDocument \<Rightarrow> EventDocument \<times> js_error option" where
  "step_slug doc =
     (if isModified_title doc \<or> \<not> truthy (slug doc) then
        (case title doc of
           Some t \<Rightarrow> (doc\<lparr>slug := Some (slugify t)\<rparr>, None)
         | None \<Rightarrow> (doc, Some (Error ''TypeError: Cannot read properties of undefined'')))
      else (doc, None))"

definition step_date :: "platform \<Rightarrow> EventDocument \<Rightarrow> EventDocument \<times> js_error option" where
  "step_date P doc =
     (case date doc of
        None \<Rightarrow> (doc, None)
      | Some s \<Rightarrow>
          if s = [] then (doc, None)
          else
            (case new_Date P s of
               None \<Rightarrow> (doc, Some (Error ''Invalid date format. Expected a valid date string.''))
             | Some t \<Rightarrow> (doc\<lparr>date := Some (split_T_first (toISOString t))\<rparr>, None)))"

definition step_time :: "EventDocument \<Rightarrow> EventDocument \<times> js_error option" where
  "step_time doc =
     (case time doc of
        None \<Rightarrow> (doc, None)
      | Some s \<Rightarrow>
          if s = [] then (doc, None)
          else
            (case normalizeTime s of
               None \<Rightarrow>
                 (doc, Some (Error ''Invalid time format. Use HH:mm or a similar 24h format.''))
             | Some n \<Rightarrow>
                 if n = []
                 then (doc, Some (Error ''Invalid time format. Use HH:mm or a similar 24h format.''))
                 else (doc\<lparr>time := Some n\<rparr>, None)))"

definition preSave :: "platform \<Rightarrow> EventDocument \<Rightarrow> EventDocument \<times> js_error option" where
  "preSave P doc =
     (case check_required requiredStringFields doc of
        Some e \<Rightarrow> (doc, Some e)
      | None \<Rightarrow>
     (case check_agenda doc of
        Some e \<Rightarrow> (doc, Some e)
      | None \<Rightarrow>
     (case check_tags doc of
        Some e \<Rightarrow> (doc, Some e)
      | None \<Rightarrow>
     (case step_slug doc of
        (doc1, Some e) \<Rightarrow> (doc1, Some e)
      | (doc1, None) \<Rightarrow>
     (case step_date P doc1 of
        (doc2, Some e) \<Rightarrow> (doc2, Some e)
      | (doc2, None) \<Rightarrow> step_time doc2)))))"

section \<open>The Event schema\<close>

text \<open>
  What the schema declares besides the hook, and mongoose does with it around the hook.
  A string path with \<open>trim: true\<close> is trimmed when it is set. Before any pre-save hook
  of the schema, \<open>save\<close> validates every path and reports all the failing paths in one
  validation error: a required string fails when it is absent or empty; an array path
  fails \<open>required\<close> when it is null, and its own validator when it is empty. (An array
  path that is not given at all is the empty array.) The entries are listed in the order
  of the schema.
\<close>

definition event_setters :: "EventDocument \<Rightarrow> EventDocument" where
  "event_setters doc =
     doc\<lparr>title := map_option trim (title doc),
         description := map_option trim (description doc),
         overview := map_option trim (overview doc),
         image_field := map_option trim (image_field doc),
         venue := map_option trim (venue doc),
         location := map_option trim (location doc),
         mode := map_option trim (mode doc),
         audience := map_option trim (audience doc),
         organizer := map_option trim (organizer doc)\<rparr>"

definition required_message :: "string \<Rightarrow> string" where
  "required_message path = ''Path `'' @ path @ ''` is required.''"

definition required_string :: "string \<Rightarrow> string option \<Rightarrow> (string \<times> string) list" where
  "required_string path v = (if truthy v then [] else [(path, required_message path)])"

definition validated_array ::
  "string \<Rightarrow> string \<Rightarrow> string list option \<Rightarrow> (string \<times> string) list" where
  "validated_array path message v =
     (case v of
        None \<Rightarrow> [(path, required_message path)]
      | Some xs \<Rightarrow> if length xs > 0 then [] else [(path, message)])"

definition event_invalid :: "EventDocument \<Rightarrow> (string \<times> string) list" where
  "event_invalid doc =
     required_string ''title'' (title doc)
     @ required_string ''description'' (description doc)
     @ required_string ''overview'' (overview doc)
     @ required_string ''image'' (image_field doc)
     @ required_string ''venue'' (venue doc)
     @ required_string ''location'' (location doc)
     @ required_string ''date'' (date doc)
     @ required_string ''time'' (time doc)
     @ required_string ''mode'' (mode doc)
     @ required_string ''audience'' (audience doc)
     @ validated_array ''agenda'' ''Agenda must contain at least one item.'' (agenda doc)
     @ required_string ''organizer'' (organizer doc)
     @ validated_array ''tags'' ''Tags must contain at least one tag.'' (tags doc)"

definition prepareForPersist ::
  "platform \<Rightarrow> EventDocument \<Rightarrow> EventDocument \<times> js_error option" where
  \<comment> \<open>all that runs on a document before it is written: setters, validation, the hook\<close>
  "prepareForPersist P doc =
     (let d = event_setters doc in
      case event_invalid d of
        [] \<Rightarrow> preSave P d
      | e # es \<Rightarrow> (d, Some (ValidationError (e # es))))"

text \<open>
  Saving writes the document only when all of that has passed; the collection has a
  unique index on \<open>slug\<close>.
\<close>

definition Event_save ::
  "platform \<Rightarrow> EventDocument list \<Rightarrow> EventDocument
     \<Rightarrow> EventDocument list \<times> EventDocument \<times> js_error option" where
  "Event_save P events doc =
     (case prepareForPersist P doc of
        (doc', Some e) \<Rightarrow> (events, doc', Some e)
      | (doc', None) \<Rightarrow>
          if list_ex (\<lambda>d. slug d = slug doc') events
          then (events, doc', Some (Error ''E11000 duplicate key error''))
          else (events @ [doc'], doc', None))"

definition blank :: "string option \<Rightarrow> bool" where
  \<comment> \<open>absent, or empty once trimmed\<close>
  "blank v = (case v of None \<Rightarrow> True | Some s \<Rightarrow> trim s = [])"

definition first_blank :: "EventDocument \<Rightarrow> string option" where
  \<comment> \<open>the name of the first required string field that is blank\<close>
  "first_blank doc =
     map_option fst (find (\<lambda>(field, get). blank (get doc)) requiredStringFields)"

definition checks_pass :: "EventDocument \<Rightarrow> bool" where
  \<comment> \<open>the first three steps of the hook find nothing\<close>
  "checks_pass doc =
     (check_required requiredStringFields doc = None \<and> check_agenda doc = None
      \<and> check_tags doc = None)"

section \<open>The Booking model\<close>

record BookingDocument =
  eventId :: "nat option"
  email :: "string option"

definition not_space_at :: "char \<Rightarrow> bool" where
  \<comment> \<open>\<open>[^\s@]\<close>\<close>
  "not_space_at c = (\<not> is_space c \<and> c \<noteq> CHR ''@'')"

definition EMAIL_REGEX :: "atom list" where
  \<comment> \<open>\<open>/^[^\s@]+@[^\s@]+\.[^\s@]+$/\<close>\<close>
  "EMAIL_REGEX =
     [(not_space_at, Plus), (\<lambda>c. c = CHR ''@'', One), (not_space_at, Plus),
      (\<lambda>c. c = CHR ''.'', One), (not_space_at, Plus)]"

text \<open>
  The database as the Booking hook sees it: the identities of the stored events, the
  stored bookings, and the message of the error every query throws while the database
  cannot be reached.
\<close>

record database =
  event_ids :: "nat list"
  bookings :: "BookingDocument list"
  failure :: "string option"

definition Event_exists :: "database \<Rightarrow> nat \<Rightarrow> js_error + bool" where
  \<comment> \<open>\<open>await Event.exists({ _id: id })\<close>: throws, or answers whether the event is stored\<close>
  "Event_exists db i =
     (case failure db of
        Some m \<Rightarrow> Inl (MongoError m)
      | None \<Rightarrow> Inr (i \<in> set (event_ids db)))"

definition bookingPreSave :: "database \<Rightarrow> BookingDocument \<Rightarrow> js_error option" where
  "bookingPreSave db doc =
     (if \<not> truthy (email doc) \<or> \<not> rx_test EMAIL_REGEX (case email doc of Some s \<Rightarrow> s | None \<Rightarrow> [])
      then Some (Error ''A valid email address is required.'')
      else
        (case eventId doc of
           None \<Rightarrow> Some (Error ''eventId is required.'')
         | Some i \<Rightarrow>
             (case Event_exists db i of
                Inl error \<Rightarrow> Some error
              | Inr eventExists \<Rightarrow>
                  if \<not> eventExists then Some (Error ''The referenced event does not exist.'')
                  else None)))"

text \<open>
  The schema around the hook: \<open>email\<close> is trimmed and lower-cased when it is set;
  before the hook, \<open>save\<close> validates that \<open>eventId\<close> is there and that \<open>email\<close> is
  there and not empty, and reports the failing paths in one validation error.
\<close>

definition booking_setters :: "BookingDocument \<Rightarrow> BookingDocument" where
  "booking_setters doc = doc\<lparr>email := map_option (\<lambda>s. toLowerCase (trim s)) (email doc)\<rparr>"

definition booking_invalid :: "BookingDocument \<Rightarrow> (string \<times> string) list" where
  "booking_invalid doc =
     (case eventId doc of
        None \<Rightarrow> [(''eventId'', required_message ''eventId'')]
      | Some i \<Rightarrow> [])
     @ required_string ''email'' (email doc)"

definition Booking_save ::
  "database \<Rightarrow> BookingDocument \<Rightarrow> database \<times> js_error option" where
  "Booking_save db doc =
     (let d = booking_setters doc in
      case booking_invalid d of
        e # es \<Rightarrow> (db, Some (ValidationError (e # es)))
      | [] \<Rightarrow>
          (case bookingPreSave db d of
             Some e \<Rightarrow> (db, Some e)
           | None \<Rightarrow> (db\<lparr>bookings := bookings db @ [d]\<rparr>, None)))"

definition email_ok :: "BookingDocument \<Rightarrow> bool" where
  \<comment> \<open>the document passes the email check of the hook\<close>
  "email_ok doc =
     (case email doc of None \<Rightarrow> False | Some s \<Rightarrow> s \<noteq> [] \<and> rx_test EMAIL_REGEX s)"

definition identifies_event :: "database \<Rightarrow> BookingDocument \<Rightarrow> bool" where
  \<comment> \<open>\<open>eventId\<close> is the identity of a stored event\<close>
  "identifies_event db doc =
     (case eventId doc of None \<Rightarrow> False | Some i \<Rightarrow> i \<in> set (event_ids db))"

section \<open>The connection cache\<close>

text \<open>
  \<open>connectToDatabase\<close> is an async function: a call runs to its \<open>await\<close>, and resumes
  after the awaited promise has settled. The world holds the cache object, the promises
  that \<open>mongoose.connect\<close> has returned (one per call of it, in order), the calls
  suspended at the \<open>await\<close> with the promise each awaits, and the calls that have
  completed with what they returned or threw. A connection handle and a caller are
  numbers.
\<close>

record MongooseGlobal =
  conn :: "nat option"
  promise :: "nat option"

datatype outcome = Pending | Fulfilled nat | Rejected js_error

record world =
  cached :: MongooseGlobal
  promises :: "outcome list"
  awaiting :: "(nat \<times> nat) list"
  returned :: "(nat \<times> (js_error + nat)) list"

record process =
  MONGODB_URI :: "string option"
  mongooseConn :: "MongooseGlobal option"
  promise_heap :: "outcome list"

definition load_module :: "process \<Rightarrow> js_error + world" where
  \<comment> \<open>the module's top-level statements\<close>
  "load_module p =
     (if \<not> truthy (MONGODB_URI p)
      then Inl (Error ''Please define the MONGODB_URI environment variable in your environment.'')
      else Inr \<lparr>cached = (case mongooseConn p of
                            Some c \<Rightarrow> c
                          | None \<Rightarrow> \<lparr>conn = None, promise = None\<rparr>),
                promises = promise_heap p, awaiting = [], returned = []\<rparr>)"

definition connect_calls :: "world \<Rightarrow> nat" where
  \<comment> \<open>how many times \<open>mongoose.connect\<close> has been called\<close>
  "connect_calls w = length (promises w)"

definition in_flight :: "world \<Rightarrow> nat" where
  \<comment> \<open>how many connection attempts have not settled\<close>
  "in_flight w = length (filter (\<lambda>x. x = Pending) (promises w))"

definition call :: "nat \<Rightarrow> world \<Rightarrow> world" where
  \<comment> \<open>caller \<open>c\<close> calls \<open>connectToDatabase\<close>: the body up to the \<open>await\<close>\<close>
  "call c w =
     (case conn (cached w) of
        Some h \<Rightarrow> w\<lparr>returned := returned w @ [(c, Inr h)]\<rparr>
      | None \<Rightarrow>
          (case promise (cached w) of
             None \<Rightarrow>
               w\<lparr>cached := (cached w)\<lparr>promise := Some (length (promises w))\<rparr>,
                 promises := promises w @ [Pending],
                 awaiting := awaiting w @ [(c, length (promises w))]\<rparr>
           | Some p \<Rightarrow> w\<lparr>awaiting := awaiting w @ [(c, p)]\<rparr>))"

definition settle :: "nat \<Rightarrow> js_error + nat \<Rightarrow> world \<Rightarrow> world" where
  \<comment> \<open>the connection attempt of promise \<open>p\<close> ends; a settled promise stays as it is\<close>
  "settle p r w =
     (if p < length (promises w) \<and> promises w ! p = Pending
      then w\<lparr>promises := (promises w)[p := (case r of Inl e \<Rightarrow> Rejected e | Inr h \<Rightarrow> Fulfilled h)]\<rparr>
      else w)"

definition resume :: "nat \<Rightarrow> world \<Rightarrow> world" where
  \<comment> \<open>caller \<open>c\<close> continues after its \<open>await\<close>, once the promise has settled\<close>
  "resume c w =
     (case map_of (awaiting w) c of
        None \<Rightarrow> w
      | Some p \<Rightarrow>
          if p < length (promises w) then
            (case promises w ! p of
               Pending \<Rightarrow> w
             | Fulfilled h \<Rightarrow>
                 w\<lparr>cached := (cached w)\<lparr>conn := Some h\<rparr>,
                   awaiting := remove1 (c, p) (awaiting w),
                   returned := returned w @ [(c, Inr h)]\<rparr>
             | Rejected e \<Rightarrow>
                 w\<lparr>awaiting := remove1 (c, p) (awaiting w),
                   returned := returned w @ [(c, Inl e)]\<rparr>)
          else w)"

datatype event = Call nat | Settle nat "js_error + nat" | Resume nat

fun step :: "event \<Rightarrow> world \<Rightarrow> world" where
  "step (Call c) w = call c w"
| "step (Settle p r) w = settle p r w"
| "step (Resume c) w = resume c w"

fun run :: "event list \<Rightarrow> world \<Rightarrow> world" where
  "run [] w = w"
| "run (e # es) w = run es (step e w)"

definition initial :: world where
  \<comment> \<open>the world after the module has loaded in a fresh process\<close>
  "initial = \<lparr>cached = \<lparr>conn = None, promise = None\<rparr>, promises = [], awaiting = [], returned = []\<rparr>"

definition program :: "process \<Rightarrow> event list \<Rightarrow> js_error + world" where
  \<comment> \<open>the module is loaded, then the events happen\<close>
  "program p evs = (case load_module p of Inl e \<Rightarrow> Inl e | Inr w \<Rightarrow> Inr (run evs w))"

text \<open>What holds of every world reached from \<open>initial\<close>.\<close>

definition cache_inv :: "world \<Rightarrow> bool" where
  "cache_inv w =
     (length (promises w) \<le> 1
      \<and> (case promise (cached w) of
           None \<Rightarrow> promises w = [] \<and> conn (cached w) = None
         | Some p \<Rightarrow> p = 0 \<and> length (promises w) = 1)
      \<and> (case conn (cached w) of None \<Rightarrow> True | Some h \<Rightarrow> promises w = [Fulfilled h])
      \<and> list_all (\<lambda>(c, p). p = 0 \<and> promises w \<noteq> []) (awaiting w)
      \<and> list_all (\<lambda>(c, r). case r of Inr h \<Rightarrow> promises w = [Fulfilled h]
                                   | Inl e \<Rightarrow> promises w = [Rejected e]) (returned w))"

definition errors_from_attempts :: "world \<Rightarrow> bool" where
  \<comment> \<open>every error a call has thrown is the rejection of a connection attempt\<close>
  "errors_from_attempts w =
     list_all (\<lambda>(c, r). case r of Inr h \<Rightarrow> True | Inl e \<Rightarrow> Rejected e \<in> set (promises w))
       (returned w)"

section \<open>Sample data\<close>

definition sample_event :: EventDocument where
  "sample_event =
     \<lparr>title = Some ''My Event! 2024'', slug = None, description = Some ''A day of talks'',
      overview = Some ''Talks'', image_field = Some ''cover.png'', venue = Some ''Hall A'',
      location = Some ''Berlin'', date = Some ''March 5, 2024'', time = Some ''930'',
      mode = Some ''offline'', audience = Some ''developers'', agenda = Some [''Opening''],
      organizer = Some ''ACME'', tags = Some [''tech''], isModified_title = True\<rparr>"

definition engine_utc :: platform where
  \<comment> \<open>an engine that reads \<open>March 5, 2024\<close> as local midnight, in a process whose zone is UTC\<close>
  "engine_utc =
     \<lparr>Date_parse_impl = (\<lambda>s. if s = ''March 5, 2024'' then Some 1709596800000 else None)\<rparr>"


section \<open>Properties of the connection cache\<close>

lemma cache_inv_initial: "cache_inv initial"
  by (simp add: cache_inv_def initial_def)

lemma cache_inv_call: "cache_inv w \<Longrightarrow> cache_inv (call c w)"
  by (auto simp: cache_inv_def call_def list_all_iff split: option.splits sum.splits)

lemma cache_inv_settle: "cache_inv w \<Longrightarrow> cache_inv (settle p r w)"
  by (cases "promises w")
     (auto simp: cache_inv_def settle_def list_all_iff split: option.splits sum.splits)

lemma cache_inv_resume: "cache_inv w \<Longrightarrow> cache_inv (resume c w)"
  by (cases "promises w")
     (auto simp: cache_inv_def resume_def list_all_iff
           split: option.splits sum.splits outcome.splits
           dest!: map_of_SomeD set_remove1_subset[THEN subsetD])

lemma cache_inv_step: "cache_inv w \<Longrightarrow> cache_inv (step e w)"
  by (cases e) (simp_all add: cache_inv_call cache_inv_settle cache_inv_resume)

lemma cache_inv_run: "cache_inv w \<Longrightarrow> cache_inv (run evs w)"
  by (induction evs arbitrary: w) (simp_all add: cache_inv_step)

lemma cache_inv_reached: "cache_inv (run evs initial)"
  by (simp add: cache_inv_run cache_inv_initial)

lemma run_append: "run (xs @ ys) w = run ys (run xs w)"
  by (induction xs arbitrary: w) simp_all

lemma promises_step_mono: "length (promises w) \<le> length (promises (step e w))"
  by (cases e)
     (auto simp: call_def settle_def resume_def split: option.splits outcome.splits)

lemma promises_run_mono: "length (promises w) \<le> length (promises (run evs w))"
proof (induction evs arbitrary: w)
  case Nil
  then show ?case by simp
next
  case (Cons e evs)
  have "length (promises w) \<le> length (promises (step e w))"
    by (rule promises_step_mono)
  also have "\<dots> \<le> length (promises (run evs (step e w)))"
    by (rule Cons.IH)
  finally show ?case by simp
qed

lemma call_starts_attempt: "cache_inv w \<Longrightarrow> 1 \<le> length (promises (call c w))"
  by (auto simp: cache_inv_def call_def split: option.splits)

lemma call_in_run: "Call c \<in> set evs \<Longrightarrow> cache_inv w \<Longrightarrow> 1 \<le> length (promises (run evs w))"
proof (induction evs arbitrary: w)
  case Nil
  then show ?case by simp
next
  case (Cons e evs)
  show ?case
  proof (cases "e = Call c")
    case True
    have "1 \<le> length (promises (call c w))"
      using Cons.prems(2) by (rule call_starts_attempt)
    also have "\<dots> \<le> length (promises (run evs (call c w)))"
      by (rule promises_run_mono)
    finally show ?thesis using True by simp
  next
    case False
    then have "Call c \<in> set evs" using Cons.prems(1) by simp
    then show ?thesis using Cons.IH Cons.prems(2) by (simp add: cache_inv_step)
  qed
qed

lemma in_flight_le: "in_flight w \<le> connect_calls w"
  by (simp add: in_flight_def connect_calls_def)

lemma returned_agree:
  "cache_inv w \<Longrightarrow> (c, Inr h) \<in> set (returned w) \<Longrightarrow> (c', Inr h') \<in> set (returned w) \<Longrightarrow> h = h'"
proof -
  assume inv: "cache_inv w" and a: "(c, Inr h) \<in> set (returned w)"
    and b: "(c', Inr h') \<in> set (returned w)"
  have "promises w = [Fulfilled h]"
    using inv a by (fastforce simp: cache_inv_def list_all_iff)
  moreover have "promises w = [Fulfilled h']"
    using inv b by (fastforce simp: cache_inv_def list_all_iff)
  ultimately show "h = h'" by simp
qed

lemma run_calls_joined:
  "conn (cached w) = None \<Longrightarrow> promise (cached w) = Some p \<Longrightarrow>
   run (map Call cs) w = w\<lparr>awaiting := awaiting w @ map (\<lambda>c. (c, p)) cs\<rparr>"
  by (induction cs arbitrary: w) (simp_all add: call_def)

lemma run_calls_initial:
  "run (map Call (c # cs)) initial =
     \<lparr>cached = \<lparr>conn = None, promise = Some 0\<rparr>, promises = [Pending],
      awaiting = map (\<lambda>c. (c, 0)) (c # cs), returned = []\<rparr>"
  by (simp add: run_calls_joined call_def initial_def)

lemma map_of_joined: "c \<in> set rem \<Longrightarrow> map_of (map (\<lambda>c. (c, p)) rem) c = Some p"
  by (induction rem) auto

lemma remove1_joined:
  "remove1 (c, p) (map (\<lambda>c. (c, p)) rem) = map (\<lambda>c. (c, p)) (remove1 c rem)"
  by (induction rem) auto

lemma run_resumes:
  "promises w = [Fulfilled h] \<Longrightarrow> awaiting w = map (\<lambda>c. (c, 0)) rem \<Longrightarrow> distinct rem \<Longrightarrow>
   distinct cs \<Longrightarrow> set cs \<subseteq> set rem \<Longrightarrow>
   run (map Resume cs) w =
     w\<lparr>cached := (if cs = [] then cached w else (cached w)\<lparr>conn := Some h\<rparr>),
       awaiting := map (\<lambda>c. (c, 0)) (filter (\<lambda>c. c \<notin> set cs) rem),
       returned := returned w @ map (\<lambda>c. (c, Inr h)) cs\<rparr>"
proof (induction cs arbitrary: w rem)
  case Nil
  then show ?case by simp
next
  case (Cons c cs)
  let ?w = "resume c w"
  have w': "?w = w\<lparr>cached := (cached w)\<lparr>conn := Some h\<rparr>,
                   awaiting := map (\<lambda>c. (c, 0)) (remove1 c rem),
                   returned := returned w @ [(c, Inr h)]\<rparr>"
    using Cons.prems by (simp add: resume_def map_of_joined remove1_joined)
  have "run (map Resume cs) ?w =
     ?w\<lparr>cached := (if cs = [] then cached ?w else (cached ?w)\<lparr>conn := Some h\<rparr>),
       awaiting := map (\<lambda>c. (c, 0)) (filter (\<lambda>c. c \<notin> set cs) (remove1 c rem)),
       returned := returned ?w @ map (\<lambda>c. (c, Inr h)) cs\<rparr>"
    using Cons.prems by (intro Cons.IH) (auto simp: w')
  moreover have "filter (\<lambda>x. x \<notin> set cs) (remove1 c rem) = filter (\<lambda>x. x \<notin> set (c # cs)) rem"
    using Cons.prems(3)
    by (auto simp: distinct_remove1_removeAll removeAll_filter_not_eq intro: filter_cong)
  ultimately show ?case by (simp add: w')
qed

lemma first_use_scenario:
  assumes "cs \<noteq> []" "distinct cs" "distinct rs" "set rs = set cs"
  shows "run (map Call cs @ Settle 0 (Inr k) # map Resume rs) initial =
           \<lparr>cached = \<lparr>conn = Some k, promise = Some 0\<rparr>, promises = [Fulfilled k],
            awaiting = [], returned = map (\<lambda>c. (c, Inr k)) rs\<rparr>"
proof -
  obtain c cs' where cs: "cs = c # cs'" using assms(1) by (cases cs) auto
  let ?w1 = "\<lparr>cached = \<lparr>conn = None, promise = Some 0\<rparr>, promises = [Fulfilled k],
              awaiting = map (\<lambda>c. (c, 0)) cs, returned = []\<rparr>"
  have "run (map Call cs) initial =
          \<lparr>cached = \<lparr>conn = None, promise = Some 0\<rparr>, promises = [Pending],
           awaiting = map (\<lambda>c. (c, 0)) cs, returned = []\<rparr>"
    unfolding cs by (rule run_calls_initial)
  then have "run (map Call cs @ Settle 0 (Inr k) # map Resume rs) initial
               = run (map Resume rs) ?w1"
    by (simp add: run_append settle_def)
  also have "\<dots> = ?w1\<lparr>cached := (if rs = [] then cached ?w1 else (cached ?w1)\<lparr>conn := Some k\<rparr>),
       awaiting := map (\<lambda>c. (c, 0)) (filter (\<lambda>c. c \<notin> set rs) cs),
       returned := returned ?w1 @ map (\<lambda>c. (c, Inr k)) rs\<rparr>"
    using assms by (intro run_resumes) auto
  also have "\<dots> = \<lparr>cached = \<lparr>conn = Some k, promise = Some 0\<rparr>, promises = [Fulfilled k],
            awaiting = [], returned = map (\<lambda>c. (c, Inr k)) rs\<rparr>"
    using assms by auto
  finally show ?thesis .
qed

text \<open>
  C1. From the world in which no connection exists, whatever calls, settlements and
  resumptions happen in whatever order, \<open>mongoose.connect\<close> is called at most once, so
  at most one attempt is in flight; it is called exactly once as soon as there is a call;
  no two calls return different handles; and when N callers call before the attempt
  succeeds with \<open>k\<close> and then resume in any order, the one attempt has been made and every
  one of them returns \<open>k\<close>.
\<close>

theorem connectToDatabase_single_attempt:
  "connect_calls (run evs initial) \<le> 1
   \<and> in_flight (run evs initial) \<le> 1
   \<and> (Call c \<in> set evs \<longrightarrow> connect_calls (run evs initial) = 1)
   \<and> ((a, Inr h) \<in> set (returned (run evs initial))
        \<and> (b, Inr h') \<in> set (returned (run evs initial)) \<longrightarrow> h = h')
   \<and> (cs \<noteq> [] \<and> distinct cs \<and> distinct rs \<and> set rs = set cs \<longrightarrow>
        connect_calls (run (map Call cs @ Settle 0 (Inr k) # map Resume rs) initial) = 1
        \<and> awaiting (run (map Call cs @ Settle 0 (Inr k) # map Resume rs) initial) = []
        \<and> returned (run (map Call cs @ Settle 0 (Inr k) # map Resume rs) initial)
            = map (\<lambda>c. (c, Inr k)) rs)"
proof -
  have inv: "cache_inv (run evs initial)" by (rule cache_inv_reached)
  have le: "connect_calls (run evs initial) \<le> 1"
    using inv by (simp add: cache_inv_def connect_calls_def)
  have fl: "in_flight (run evs initial) \<le> 1"
    using le in_flight_le[of "run evs initial"] by simp
  have ex: "Call c \<in> set evs \<longrightarrow> connect_calls (run evs initial) = 1"
    using le call_in_run[of c evs initial] cache_inv_initial
    by (auto simp: connect_calls_def)
  have ag: "(a, Inr h) \<in> set (returned (run evs initial))
        \<and> (b, Inr h') \<in> set (returned (run evs initial)) \<longrightarrow> h = h'"
    using returned_agree[OF inv] by blast
  have sc: "cs \<noteq> [] \<and> distinct cs \<and> distinct rs \<and> set rs = set cs \<longrightarrow>
        connect_calls (run (map Call cs @ Settle 0 (Inr k) # map Resume rs) initial) = 1
        \<and> awaiting (run (map Call cs @ Settle 0 (Inr k) # map Resume rs) initial) = []
        \<and> returned (run (map Call cs @ Settle 0 (Inr k) # map Resume rs) initial)
            = map (\<lambda>c. (c, Inr k)) rs"
    by (simp add: first_use_scenario connect_calls_def)
  show ?thesis using le fl ex ag sc by blast
qed

theorem connectToDatabase_single_attempt_witness:
  "Call 1 \<in> set [Call 0, Call 1, Settle 0 (Inr 7), Resume 1, Resume 0]
   \<and> connect_calls (run [Call 0, Call 1, Settle 0 (Inr 7), Resume 1, Resume 0] initial) = 1
   \<and> in_flight (run [Call 0, Call 1, Settle 0 (Inr 7), Resume 1, Resume 0] initial) \<le> 1
   \<and> (1, Inr 7) \<in> set (returned (run [Call 0, Call 1, Settle 0 (Inr 7), Resume 1, Resume 0] initial))
   \<and> (0, Inr 7) \<in> set (returned (run [Call 0, Call 1, Settle 0 (Inr 7), Resume 1, Resume 0] initial))
   \<and> [0, 1, 2] \<noteq> [] \<and> distinct [0, 1, 2 :: nat] \<and> distinct [2, 0, 1 :: nat]
   \<and> set [2, 0, 1] = set [0, 1, 2 :: nat]
   \<and> connect_calls (run (map Call [0, 1, 2] @ Settle 0 (Inr 7) # map Resume [2, 0, 1]) initial) = 1
   \<and> awaiting (run (map Call [0, 1, 2] @ Settle 0 (Inr 7) # map Resume [2, 0, 1]) initial) = []
   \<and> returned (run (map Call [0, 1, 2] @ Settle 0 (Inr 7) # map Resume [2, 0, 1]) initial)
       = [(2, Inr 7), (0, Inr 7), (1, Inr 7)]"
proof -
  have r: "returned (run [Call 0, Call 1, Settle 0 (Inr 7), Resume 1, Resume 0] initial)
             = [(1, Inr 7), (0, Inr 7)]"
    by (simp add: initial_def call_def settle_def resume_def)
  have s: "set [2, 0, 1] = set [0, 1, 2 :: nat]" by auto
  show ?thesis
    using connectToDatabase_single_attempt
      [of "[Call 0, Call 1, Settle 0 (Inr 7), Resume 1, Resume 0]" 1 1 7 0 7
          "[0, 1, 2]" "[2, 0, 1]" 7] r s
    by simp
qed

subsection \<open>A failed connection attempt\<close>









subsection \<open>The missing connection string\<close>

lemma errors_from_attempts_step: "errors_from_attempts w \<Longrightarrow> errors_from_attempts (step ev w)"
proof (cases ev)
  case (Call c)
  assume "errors_from_attempts w"
  then show ?thesis using Call
    by (auto simp: errors_from_attempts_def call_def list_all_iff
             split: option.splits sum.splits)
next
  case (Settle p r)
  assume a: "errors_from_attempts w"
  have keep: "\<And>e v. p < length (promises w) \<Longrightarrow> promises w ! p = Pending \<Longrightarrow>
            Rejected e \<in> set (promises w) \<Longrightarrow> Rejected e \<in> set ((promises w)[p := v])"
    by (metis in_set_conv_nth length_list_update nth_list_update_neq outcome.distinct(3))
  show ?thesis using Settle a
    by (auto simp: errors_from_attempts_def settle_def list_all_iff keep
             split: sum.splits)
next
  case (Resume c)
  assume "errors_from_attempts w"
  then show ?thesis using Resume
    by (auto simp: errors_from_attempts_def resume_def list_all_iff
             split: option.splits sum.splits outcome.splits
             dest: nth_mem)
qed

lemma errors_from_attempts_run: "errors_from_attempts w \<Longrightarrow> errors_from_attempts (run evs w)"
  by (induction evs arbitrary: w) (simp_all add: errors_from_attempts_step)

lemma loaded_world: "load_module p = Inr w \<Longrightarrow> truthy (MONGODB_URI p) \<and> returned w = []"
  by (auto simp: load_module_def split: if_splits)

text \<open>
  C10, as the code has it. When the connection string is absent (or empty) the error is
  thrown while the module loads, whatever calls would follow, so before any call of
  \<open>connectToDatabase\<close>; nothing catches it. A module that has loaded has its
  connection string, and a call of \<open>connectToDatabase\<close> throws nothing of its own:
  every error a call throws is the rejection of a connection attempt.
\<close>

theorem missing_uri_fails_at_load:
  "(\<not> truthy (MONGODB_URI p) \<longrightarrow>
      program p evs
        = Inl (Error ''Please define the MONGODB_URI environment variable in your environment.''))
   \<and> (load_module p = Inr w \<longrightarrow>
        truthy (MONGODB_URI p)
        \<and> ((c, Inl e) \<in> set (returned (run evs w)) \<longrightarrow>
             Rejected e \<in> set (promises (run evs w))))"
proof -
  have 1: "\<not> truthy (MONGODB_URI p) \<longrightarrow>
      program p evs
        = Inl (Error ''Please define the MONGODB_URI environment variable in your environment.'')"
    by (simp add: program_def load_module_def)
  have 2: "load_module p = Inr w \<longrightarrow>
        truthy (MONGODB_URI p)
        \<and> ((c, Inl e) \<in> set (returned (run evs w)) \<longrightarrow>
             Rejected e \<in> set (promises (run evs w)))"
  proof
    assume l: "load_module p = Inr w"
    then have t: "truthy (MONGODB_URI p)" and r: "returned w = []"
      using loaded_world by blast+
    have "errors_from_attempts w" using r by (simp add: errors_from_attempts_def)
    then have "errors_from_attempts (run evs w)" by (rule errors_from_attempts_run)
    then have "(c, Inl e) \<in> set (returned (run evs w)) \<longrightarrow>
             Rejected e \<in> set (promises (run evs w))"
      by (fastforce simp: errors_from_attempts_def list_all_iff)
    then show "truthy (MONGODB_URI p)
        \<and> ((c, Inl e) \<in> set (returned (run evs w)) \<longrightarrow>
             Rejected e \<in> set (promises (run evs w)))"
      using t by simp
  qed
  show ?thesis using 1 2 by simp
qed

theorem missing_uri_fails_at_load_witness:
  "\<not> truthy (MONGODB_URI \<lparr>MONGODB_URI = None, mongooseConn = None, promise_heap = []\<rparr>)
   \<and> program \<lparr>MONGODB_URI = None, mongooseConn = None, promise_heap = []\<rparr> [Call 0]
       = Inl (Error ''Please define the MONGODB_URI environment variable in your environment.'')
   \<and> load_module \<lparr>MONGODB_URI = Some ''mongodb://localhost/dev'', mongooseConn = None,
                   promise_heap = []\<rparr> = Inr initial
   \<and> truthy (MONGODB_URI \<lparr>MONGODB_URI = Some ''mongodb://localhost/dev'', mongooseConn = None,
                   promise_heap = []\<rparr>)
   \<and> (0, Inl (Error ''down''))
       \<in> set (returned (run [Call 0, Settle 0 (Inl (Error ''down'')), Resume 0] initial))
   \<and> Rejected (Error ''down'')
       \<in> set (promises (run [Call 0, Settle 0 (Inl (Error ''down'')), Resume 0] initial))"
proof -
  have l: "load_module \<lparr>MONGODB_URI = Some ''mongodb://localhost/dev'', mongooseConn = None,
                   promise_heap = []\<rparr> = Inr initial"
    by (simp add: load_module_def truthy_def initial_def)
  have r: "(0, Inl (Error ''down''))
       \<in> set (returned (run [Call 0, Settle 0 (Inl (Error ''down'')), Resume 0] initial))"
    by (simp add: initial_def call_def settle_def resume_def)
  have n: "\<not> truthy (MONGODB_URI \<lparr>MONGODB_URI = None, mongooseConn = None, promise_heap = []\<rparr>)"
    by (simp add: truthy_def)
  show ?thesis
    using missing_uri_fails_at_load
      [of "\<lparr>MONGODB_URI = None, mongooseConn = None, promise_heap = []\<rparr>" "[Call 0]"]
      missing_uri_fails_at_load
      [of "\<lparr>MONGODB_URI = Some ''mongodb://localhost/dev'', mongooseConn = None,
             promise_heap = []\<rparr>" "[Call 0, Settle 0 (Inl (Error ''down'')), Resume 0]"
          initial 0 "Error ''down''"]
      l r n
    by blast
qed

text \<open>
  The claim as the specification has it fails: with no connection string the program has
  thrown before a single call is made; there is no first call at which to raise it.
\<close>

theorem missing_uri_not_at_first_call_counterexample:
  "program \<lparr>MONGODB_URI = None, mongooseConn = None, promise_heap = []\<rparr> []
     = Inl (Error ''Please define the MONGODB_URI environment variable in your environment.'')
   \<and> load_module \<lparr>MONGODB_URI = None, mongooseConn = None, promise_heap = []\<rparr>
     = Inl (Error ''Please define the MONGODB_URI environment variable in your environment.'')"
  by (simp add: program_def load_module_def truthy_def)

section \<open>Properties of saving a Booking\<close>

lemma bookingPreSave_email:
  "\<not> email_ok doc \<Longrightarrow> bookingPreSave db doc = Some (Error ''A valid email address is required.'')"
  by (auto simp: bookingPreSave_def email_ok_def truthy_def split: option.splits)

lemma bookingPreSave_checked:
  "email_ok doc \<Longrightarrow>
   bookingPreSave db doc =
     (case eventId doc of
        None \<Rightarrow> Some (Error ''eventId is required.'')
      | Some i \<Rightarrow>
          (case failure db of
             Some m \<Rightarrow> Some (MongoError m)
           | None \<Rightarrow>
               if i \<in> set (event_ids db) then None
               else Some (Error ''The referenced event does not exist.'')))"
  by (auto simp: bookingPreSave_def email_ok_def truthy_def Event_exists_def
           split: option.splits)

lemma bookingPreSave_no_event:
  "\<not> identifies_event db doc \<Longrightarrow> \<exists>e. bookingPreSave db doc = Some e"
  by (cases "email_ok doc")
     (auto simp: bookingPreSave_email bookingPreSave_checked identifies_event_def
           split: option.splits)

lemma booking_setters_eventId: "eventId (booking_setters doc) = eventId doc"
  by (simp add: booking_setters_def)

lemma identifies_event_setters:
  "identifies_event db (booking_setters doc) = identifies_event db doc"
  by (simp add: identifies_event_def booking_setters_eventId)

lemma Booking_save_invalid:
  "booking_invalid (booking_setters doc) \<noteq> [] \<Longrightarrow>
   Booking_save db doc = (db, Some (ValidationError (booking_invalid (booking_setters doc))))"
  by (cases "booking_invalid (booking_setters doc)") (simp_all add: Booking_save_def)

lemma Booking_save_valid:
  "booking_invalid (booking_setters doc) = [] \<Longrightarrow>
   Booking_save db doc =
     (case bookingPreSave db (booking_setters doc) of
        Some e \<Rightarrow> (db, Some e)
      | None \<Rightarrow> (db\<lparr>bookings := bookings db @ [booking_setters doc]\<rparr>, None))"
  by (simp add: Booking_save_def Let_def)

lemma booking_valid:
  "email_ok d \<Longrightarrow> eventId d = Some i \<Longrightarrow> booking_invalid d = []"
  by (auto simp: booking_invalid_def required_string_def truthy_def email_ok_def
           split: option.splits)

text \<open>
  C2, as the code has it. A booking whose \<open>eventId\<close> is not the identity of a stored
  event is never written: the save ends in an error and the database is as it was. Which
  error depends on what fails first. The schema's validation runs before the hook: a
  booking without \<open>eventId\<close>, or without a non-empty email, ends with the validation
  error that names those paths. Then the hook checks the email (as the setters left it,
  trimmed and lower-cased): an email that is not of the form of an address ends with the
  email error. Only then is the event looked up: when the lookup answers, the error is
  the referential one; when the lookup itself throws, the error thrown is the one handed
  on, and it is not the referential one.
\<close>

theorem booking_without_event_not_saved:
  "(\<not> identifies_event db doc \<longrightarrow> (\<exists>e. Booking_save db doc = (db, Some e)))
   \<and> (booking_invalid (booking_setters doc) \<noteq> [] \<longrightarrow>
        Booking_save db doc
          = (db, Some (ValidationError (booking_invalid (booking_setters doc)))))
   \<and> (eventId doc = None \<longrightarrow>
        (''eventId'', required_message ''eventId'') \<in> set (booking_invalid (booking_setters doc)))
   \<and> (\<not> truthy (email doc) \<longrightarrow>
        (''email'', required_message ''email'') \<in> set (booking_invalid (booking_setters doc)))
   \<and> (booking_invalid (booking_setters doc) = [] \<and> \<not> email_ok (booking_setters doc) \<longrightarrow>
        Booking_save db doc = (db, Some (Error ''A valid email address is required.'')))
   \<and> (email_ok (booking_setters doc) \<and> eventId doc = Some i \<and> failure db = None
        \<and> i \<notin> set (event_ids db) \<longrightarrow>
        Booking_save db doc = (db, Some (Error ''The referenced event does not exist.'')))
   \<and> (email_ok (booking_setters doc) \<and> eventId doc = Some i \<and> failure db = Some m \<longrightarrow>
        Booking_save db doc = (db, Some (MongoError m))
        \<and> MongoError m \<noteq> Error ''The referenced event does not exist.'')
   \<and> (Booking_save db doc = (db', None) \<longrightarrow>
        identifies_event db doc \<and> failure db = None
        \<and> db' = db\<lparr>bookings := bookings db @ [booking_setters doc]\<rparr>)"
proof -
  let ?d = "booking_setters doc"
  have 1: "\<not> identifies_event db doc \<longrightarrow> (\<exists>e. Booking_save db doc = (db, Some e))"
  proof
    assume n: "\<not> identifies_event db doc"
    show "\<exists>e. Booking_save db doc = (db, Some e)"
    proof (cases "booking_invalid ?d = []")
      case True
      from n have "\<not> identifies_event db ?d" by (simp add: identifies_event_setters)
      then obtain e where "bookingPreSave db ?d = Some e"
        using bookingPreSave_no_event by blast
      then show ?thesis using True by (simp add: Booking_save_valid)
    next
      case False
      then show ?thesis by (simp add: Booking_save_invalid)
    qed
  qed
  have 2: "booking_invalid ?d \<noteq> [] \<longrightarrow>
        Booking_save db doc = (db, Some (ValidationError (booking_invalid ?d)))"
    by (simp add: Booking_save_invalid)
  have 3: "eventId doc = None \<longrightarrow>
        (''eventId'', required_message ''eventId'') \<in> set (booking_invalid ?d)"
    by (simp add: booking_invalid_def booking_setters_eventId)
  have 4: "\<not> truthy (email doc) \<longrightarrow>
        (''email'', required_message ''email'') \<in> set (booking_invalid ?d)"
    by (auto simp: booking_invalid_def booking_setters_def required_string_def truthy_def
             trim_def toLowerCase_def split: option.splits)
  have 5: "booking_invalid ?d = [] \<and> \<not> email_ok ?d \<longrightarrow>
        Booking_save db doc = (db, Some (Error ''A valid email address is required.''))"
    by (simp add: Booking_save_valid bookingPreSave_email)
  have 6: "email_ok ?d \<and> eventId doc = Some i \<and> failure db = None \<and> i \<notin> set (event_ids db) \<longrightarrow>
        Booking_save db doc = (db, Some (Error ''The referenced event does not exist.''))"
  proof
    assume a: "email_ok ?d \<and> eventId doc = Some i \<and> failure db = None \<and> i \<notin> set (event_ids db)"
    then have v: "booking_invalid ?d = []"
      using booking_valid[of ?d i] by (simp add: booking_setters_eventId)
    show "Booking_save db doc = (db, Some (Error ''The referenced event does not exist.''))"
      using a by (simp add: Booking_save_valid[OF v] bookingPreSave_checked booking_setters_eventId)
  qed
  have 7: "email_ok ?d \<and> eventId doc = Some i \<and> failure db = Some m \<longrightarrow>
        Booking_save db doc = (db, Some (MongoError m))
        \<and> MongoError m \<noteq> Error ''The referenced event does not exist.''"
  proof
    assume a: "email_ok ?d \<and> eventId doc = Some i \<and> failure db = Some m"
    then have v: "booking_invalid ?d = []"
      using booking_valid[of ?d i] by (simp add: booking_setters_eventId)
    show "Booking_save db doc = (db, Some (MongoError m))
        \<and> MongoError m \<noteq> Error ''The referenced event does not exist.''"
      using a by (simp add: Booking_save_valid[OF v] bookingPreSave_checked booking_setters_eventId)
  qed
  have 8: "Booking_save db doc = (db', None) \<longrightarrow>
        identifies_event db doc \<and> failure db = None
        \<and> db' = db\<lparr>bookings := bookings db @ [?d]\<rparr>"
  proof
    assume s: "Booking_save db doc = (db', None)"
    have v: "booking_invalid ?d = []"
    proof (rule ccontr)
      assume "booking_invalid ?d \<noteq> []"
      then show False using s by (simp add: Booking_save_invalid)
    qed
    have p: "bookingPreSave db ?d = None \<and> db' = db\<lparr>bookings := bookings db @ [?d]\<rparr>"
      using s by (auto simp: Booking_save_valid[OF v] split: option.splits)
    have e: "email_ok ?d"
    proof (rule ccontr)
      assume "\<not> email_ok ?d"
      then show False using p by (simp add: bookingPreSave_email)
    qed
    have "identifies_event db ?d \<and> failure db = None"
      using p by (auto simp: bookingPreSave_checked[OF e] identifies_event_def
                       split: option.splits if_splits)
    then show "identifies_event db doc \<and> failure db = None
        \<and> db' = db\<lparr>bookings := bookings db @ [?d]\<rparr>"
      using p by (simp add: identifies_event_setters)
  qed
  show ?thesis by (intro conjI 1 2 3 4 5 6 7 8)
qed

theorem booking_without_event_not_saved_witness:
  "\<not> identifies_event \<lparr>event_ids = [1, 2], bookings = [], failure = None\<rparr>
        \<lparr>eventId = Some 5, email = Some '' ADA@Example.ORG ''\<rparr>
   \<and> booking_setters \<lparr>eventId = Some 5, email = Some '' ADA@Example.ORG ''\<rparr>
       = \<lparr>eventId = Some 5, email = Some ''ada@example.org''\<rparr>
   \<and> email_ok (booking_setters \<lparr>eventId = Some 5, email = Some '' ADA@Example.ORG ''\<rparr>)
   \<and> Booking_save \<lparr>event_ids = [1, 2], bookings = [], failure = None\<rparr>
        \<lparr>eventId = Some 5, email = Some '' ADA@Example.ORG ''\<rparr>
       = (\<lparr>event_ids = [1, 2], bookings = [], failure = None\<rparr>,
          Some (Error ''The referenced event does not exist.''))
   \<and> Booking_save \<lparr>event_ids = [1, 2], bookings = [], failure = Some ''ECONNREFUSED''\<rparr>
        \<lparr>eventId = Some 5, email = Some '' ADA@Example.ORG ''\<rparr>
       = (\<lparr>event_ids = [1, 2], bookings = [], failure = Some ''ECONNREFUSED''\<rparr>,
          Some (MongoError ''ECONNREFUSED''))
   \<and> booking_invalid (booking_setters \<lparr>eventId = None, email = Some ''   ''\<rparr>)
       = [(''eventId'', ''Path `eventId` is required.''), (''email'', ''Path `email` is required.'')]
   \<and> Booking_save \<lparr>event_ids = [1, 2], bookings = [], failure = None\<rparr>
        \<lparr>eventId = None, email = Some ''   ''\<rparr>
       = (\<lparr>event_ids = [1, 2], bookings = [], failure = None\<rparr>,
          Some (ValidationError
            [(''eventId'', ''Path `eventId` is required.''),
             (''email'', ''Path `email` is required.'')]))
   \<and> booking_invalid (booking_setters \<lparr>eventId = Some 1, email = Some ''ada at example''\<rparr>) = []
   \<and> \<not> email_ok (booking_setters \<lparr>eventId = Some 1, email = Some ''ada at example''\<rparr>)
   \<and> Booking_save \<lparr>event_ids = [1, 2], bookings = [], failure = None\<rparr>
        \<lparr>eventId = Some 1, email = Some ''ada at example''\<rparr>
       = (\<lparr>event_ids = [1, 2], bookings = [], failure = None\<rparr>,
          Some (Error ''A valid email address is required.''))
   \<and> Booking_save \<lparr>event_ids = [1, 2], bookings = [], failure = None\<rparr>
        \<lparr>eventId = Some 1, email = Some '' ADA@Example.ORG ''\<rparr>
       = (\<lparr>event_ids = [1, 2],
           bookings = [\<lparr>eventId = Some 1, email = Some ''ada@example.org''\<rparr>],
           failure = None\<rparr>, None)
   \<and> identifies_event \<lparr>event_ids = [1, 2], bookings = [], failure = None\<rparr>
        \<lparr>eventId = Some 1, email = Some '' ADA@Example.ORG ''\<rparr>"
proof -
  let ?db = "\<lparr>event_ids = [1, 2], bookings = [], failure = None\<rparr>"
  let ?down = "\<lparr>event_ids = [1, 2], bookings = [], failure = Some ''ECONNREFUSED''\<rparr>"
  let ?db1 = "\<lparr>event_ids = [1, 2],
           bookings = [\<lparr>eventId = Some 1, email = Some ''ada@example.org''\<rparr>],
           failure = None\<rparr>"
  let ?a = "\<lparr>eventId = Some 5, email = Some '' ADA@Example.ORG ''\<rparr>"
  let ?a' = "\<lparr>eventId = Some 5, email = Some ''ada@example.org''\<rparr>"
  let ?n = "\<lparr>eventId = None, email = Some ''   ''\<rparr>"
  let ?m = "\<lparr>eventId = Some 1, email = Some ''ada at example''\<rparr>"
  let ?g = "\<lparr>eventId = Some 1, email = Some '' ADA@Example.ORG ''\<rparr>"
  let ?inv = "[(''eventId'', ''Path `eventId` is required.''), (''email'', ''Path `email` is required.'')]"
  note A = booking_without_event_not_saved [where db = ?db and doc = ?a and i = 5]
  note D = booking_without_event_not_saved
    [where db = ?down and doc = ?a and i = 5 and m = "''ECONNREFUSED''"]
  note N = booking_without_event_not_saved [where db = ?db and doc = ?n]
  note M = booking_without_event_not_saved [where db = ?db and doc = ?m]
  note G = booking_without_event_not_saved [where db = ?db and doc = ?g and db' = ?db1]
  have a1: "\<not> identifies_event ?db ?a" by code_simp
  have a2: "booking_setters ?a = ?a'" by code_simp
  have a3: "email_ok (booking_setters ?a)" by code_simp
  have a4: "eventId ?a = Some 5" by simp
  have a5: "failure ?db = None" by simp
  have a6: "5 \<notin> set (event_ids ?db)" by simp
  have a: "Booking_save ?db ?a = (?db, Some (Error ''The referenced event does not exist.''))"
    by (rule A [THEN conjunct2, THEN conjunct2, THEN conjunct2, THEN conjunct2, THEN conjunct2,
                THEN conjunct1, THEN mp])
       (intro conjI a3 a4 a5 a6)
  have d1: "failure ?down = Some ''ECONNREFUSED''" by simp
  have d: "Booking_save ?down ?a = (?down, Some (MongoError ''ECONNREFUSED''))"
    by (rule D [THEN conjunct2, THEN conjunct2, THEN conjunct2, THEN conjunct2, THEN conjunct2,
                THEN conjunct2, THEN conjunct1, THEN mp, THEN conjunct1])
       (intro conjI a3 a4 d1)
  have n1: "booking_invalid (booking_setters ?n) = ?inv" by code_simp
  have n2: "booking_invalid (booking_setters ?n) \<noteq> []" by code_simp
  have n: "Booking_save ?db ?n = (?db, Some (ValidationError ?inv))"
    using N [THEN conjunct2, THEN conjunct1, THEN mp, OF n2] by (simp only: n1)
  have m1: "booking_invalid (booking_setters ?m) = []" by code_simp
  have m2: "\<not> email_ok (booking_setters ?m)" by code_simp
  have m: "Booking_save ?db ?m = (?db, Some (Error ''A valid email address is required.''))"
    by (rule M [THEN conjunct2, THEN conjunct2, THEN conjunct2, THEN conjunct2,
                THEN conjunct1, THEN mp])
       (intro conjI m1 m2)
  have g1: "Booking_save ?db ?g = (?db1, None)" by code_simp
  have g: "identifies_event ?db ?g"
    by (rule G [THEN conjunct2, THEN conjunct2, THEN conjunct2, THEN conjunct2, THEN conjunct2,
                THEN conjunct2, THEN conjunct2, THEN mp, OF g1, THEN conjunct1])
  show ?thesis by (intro conjI a1 a2 a3 a d n1 n m1 m2 m g1 g)
qed

text \<open>
  The claim as the specification has it fails: a booking for an event that does not
  exist, with an email that is not of the form of an address, ends with the email error,
  not with the referential one.
\<close>

theorem booking_error_not_referential_counterexample:
  "\<not> identifies_event \<lparr>event_ids = [1, 2], bookings = [], failure = None\<rparr>
        \<lparr>eventId = Some 5, email = Some ''not an email''\<rparr>
   \<and> Booking_save \<lparr>event_ids = [1, 2], bookings = [], failure = None\<rparr>
        \<lparr>eventId = Some 5, email = Some ''not an email''\<rparr>
       = (\<lparr>event_ids = [1, 2], bookings = [], failure = None\<rparr>,
          Some (Error ''A valid email address is required.''))"
  by code_simp

section \<open>Properties of the string functions\<close>

lemma in_dropWhile: "c \<in> set s \<Longrightarrow> \<not> P c \<Longrightarrow> c \<in> set (dropWhile P s)"
  by (induction s) auto

lemma in_strip:
  "c \<in> set s \<Longrightarrow> \<not> P c \<Longrightarrow> c \<in> set (rev (dropWhile P (rev (dropWhile P s))))"
  by (simp add: in_dropWhile)

lemma strip_subset: "set (rev (dropWhile P (rev (dropWhile P s)))) \<subseteq> set s"
  by (auto dest!: set_dropWhileD)

lemma in_replace_runs: "c \<in> set s \<Longrightarrow> \<not> p c \<Longrightarrow> c \<in> set (replace_runs p r s)"
proof (induction p r s rule: replace_runs.induct)
  case (1 p r)
  then show ?case by simp
next
  case (2 p r x xs)
  then show ?case by (auto simp: in_dropWhile)
qed

lemma replace_runs_all: "list_all p s \<Longrightarrow> replace_runs p r s = (if s = [] then [] else r)"
proof (cases s)
  case Nil
  then show ?thesis by simp
next
  case (Cons a list)
  assume "list_all p s"
  then have a: "p a" and dw: "dropWhile p list = []"
    using Cons by (simp_all add: list_all_iff dropWhile_eq_Nil_conv)
  show ?thesis unfolding Cons by (simp add: a dw)
qed

lemma replace_runs_subset: "set (replace_runs p r s) \<subseteq> set r \<union> {c \<in> set s. \<not> p c}"
proof (induction p r s rule: replace_runs.induct)
  case (1 p r)
  then show ?case by simp
next
  case (2 p r x xs)
  then show ?case by (auto dest!: set_dropWhileD)
qed

lemma of_char_toLowerCase_char:
  "(of_char (toLowerCase_char c) :: nat) =
     (let n = of_char c in
      if (65 \<le> n \<and> n \<le> 90) \<or> (192 \<le> n \<and> n \<le> 222 \<and> n \<noteq> 215) then n + 32 else n)"
  by (auto simp: toLowerCase_char_def Let_def)

lemma is_space_toLowerCase_char: "is_space (toLowerCase_char c) = is_space c"
  by (auto simp: is_space_def of_char_toLowerCase_char Let_def)

lemma trim_toLowerCase: "trim (toLowerCase s) = toLowerCase (trim s)"
  by (simp add: trim_def toLowerCase_def dropWhile_map rev_map comp_def is_space_toLowerCase_char)

lemma alnum_not_space: "is_lower_alnum c \<Longrightarrow> \<not> is_space c"
  by (auto simp: is_lower_alnum_def is_digit_def is_space_def)

lemma alnum_not_hyphen: "is_lower_alnum c \<Longrightarrow> c \<noteq> CHR ''-''"
  by (auto simp: is_lower_alnum_def is_digit_def)

lemma slugify_nonempty_iff:
  "slugify t \<noteq> [] \<longleftrightarrow> list_ex (\<lambda>c. is_lower_alnum (toLowerCase_char c)) t"
proof
  assume "list_ex (\<lambda>c. is_lower_alnum (toLowerCase_char c)) t"
  then obtain c where c: "c \<in> set t" "is_lower_alnum (toLowerCase_char c)"
    by (auto simp: list_ex_iff)
  then have "\<not> is_space c" using alnum_not_space is_space_toLowerCase_char by blast
  then have "c \<in> set (trim t)" using c(1) by (simp add: trim_def in_dropWhile)
  then have "toLowerCase_char c \<in> set (toLowerCase (trim t))" by (simp add: toLowerCase_def)
  then have "toLowerCase_char c
               \<in> set (replace_runs (\<lambda>c. \<not> is_lower_alnum c) ''-'' (toLowerCase (trim t)))"
    using c(2) by (simp add: in_replace_runs)
  then have "toLowerCase_char c \<in> set (slugify t)"
    using alnum_not_hyphen[OF c(2)] unfolding slugify_def strip_hyphens_def
    by (intro in_strip) auto
  then show "slugify t \<noteq> []" by auto
next
  assume ne: "slugify t \<noteq> []"
  show "list_ex (\<lambda>c. is_lower_alnum (toLowerCase_char c)) t"
  proof (rule ccontr)
    assume "\<not> list_ex (\<lambda>c. is_lower_alnum (toLowerCase_char c)) t"
    then have "\<forall>c\<in>set t. \<not> is_lower_alnum (toLowerCase_char c)" by (simp add: list_ex_iff)
    moreover have "set (trim t) \<subseteq> set t" unfolding trim_def by (rule strip_subset)
    ultimately have "list_all (\<lambda>c. \<not> is_lower_alnum c) (toLowerCase (trim t))"
      by (auto simp: list_all_iff toLowerCase_def)
    then have "replace_runs (\<lambda>c. \<not> is_lower_alnum c) ''-'' (toLowerCase (trim t))
                 = (if toLowerCase (trim t) = [] then [] else ''-'')"
      by (rule replace_runs_all)
    then have "slugify t = []" by (simp add: slugify_def strip_hyphens_def)
    then show False using ne by simp
  qed
qed

subsection \<open>Digits and the time patterns\<close>

lemma char_of_48: "char_of (48::nat) = CHR ''0''"
  by code_simp

lemma digit_char_0: "digit_char 0 = CHR ''0''"
  by (simp add: digit_char_def char_of_48)

lemma digit_char_val: "is_digit c \<Longrightarrow> digit_char (digit_val c) = c"
  by (auto simp: is_digit_def digit_char_def digit_val_def)

lemma digit_val_lt: "is_digit c \<Longrightarrow> digit_val c < 10"
  by (auto simp: is_digit_def digit_val_def)

lemma is_digit_digit_char: "is_digit (digit_char n)"
  by (simp add: is_digit_def digit_char_def)

lemma toString_nat_two:
  "a < 10 \<Longrightarrow> b < 10 \<Longrightarrow>
   padStart 2 (CHR ''0'') (toString_nat (10 * a + b)) = [digit_char a, digit_char b]"
  apply (cases "a = 0")
   apply (simp add: toString_nat.simps[of b] padStart_def digit_char_0)
  apply (subst toString_nat.simps)
  apply (simp add: toString_nat.simps[of a] padStart_def digit_char_def)
  done

lemma parseInt_1: "parseInt [a] = digit_val a"
  by (simp add: parseInt_def)

lemma parseInt_2: "parseInt [a, b] = 10 * digit_val a + digit_val b"
  by (simp add: parseInt_def)

lemma in_range_02: "in_range (CHR ''0'') (CHR ''2'') c = (is_digit c \<and> digit_val c \<le> 2)"
  by (auto simp: in_range_def is_digit_def digit_val_def)

lemma in_range_05: "in_range (CHR ''0'') (CHR ''5'') c = (is_digit c \<and> digit_val c \<le> 5)"
  by (auto simp: in_range_def is_digit_def digit_val_def)

lemma list_shape6:
  obtains "s = []" | a where "s = [a]" | a b where "s = [a, b]"
  | a b c where "s = [a, b, c]" | a b c d where "s = [a, b, c, d]"
  | a b c d e where "s = [a, b, c, d, e]"
  | a b c d e f r where "s = a # b # c # d # e # f # r"
  by (metis list.exhaust)

lemma colon_not_digit: "c = CHR '':'' \<Longrightarrow> \<not> is_digit c"
  by (simp add: is_digit_def)

lemma digit_val_0: "digit_val (CHR ''0'') = 0"
  by (simp add: digit_val_def)

lemma is_digit_0: "is_digit (CHR ''0'')"
  by (simp add: is_digit_def)

lemma fmt_hour1:
  "is_digit h \<Longrightarrow> padStart 2 (CHR ''0'') (toString_nat (digit_val h)) = [CHR ''0'', h]"
  using toString_nat_two[of 0 "digit_val h"]
  by (simp add: digit_val_lt digit_char_val digit_char_0)

lemma fmt_hour2:
  "is_digit h1 \<Longrightarrow> is_digit h2 \<Longrightarrow>
   padStart 2 (CHR ''0'') (toString_nat (10 * digit_val h1 + digit_val h2)) = [h1, h2]"
  using toString_nat_two[of "digit_val h1" "digit_val h2"]
  by (simp add: digit_val_lt digit_char_val)

lemmas time_simps = time_colon_rx_def time_compact_rx_def spec_time_def in_range_02 in_range_05
  parseInt_1 parseInt_2 colon_not_digit spec_hhmm_def fmt_hour1 fmt_hour2 digit_val_0
  is_digit_0 Let_def

lemma normalizeTime_body:
  "(case rx_match time_colon_rx s of
        Some [h1, h2, _, m1, m2] \<Rightarrow>
          (let hour = parseInt (h1 @ h2) in
           if hour > 23 then None
           else Some (padStart 2 (CHR ''0'') (toString_nat hour) @ '':'' @ m1 @ m2))
      | _ \<Rightarrow>
          (case rx_match time_compact_rx s of
             Some [h1, h2, m1, m2] \<Rightarrow>
               (let hour = parseInt (h1 @ h2) in
                if hour > 23 then None
                else Some (padStart 2 (CHR ''0'') (toString_nat hour) @ '':'' @ m1 @ m2))
           | _ \<Rightarrow> None)) = spec_time s"
proof (cases s rule: list_shape6)
  case 1
  then show ?thesis by (simp add: time_colon_rx_def time_compact_rx_def spec_time_def)
next
  case (2 a)
  then show ?thesis by (simp add: time_colon_rx_def time_compact_rx_def spec_time_def)
next
  case (3 a b)
  then show ?thesis by (simp add: time_colon_rx_def time_compact_rx_def spec_time_def)
next
  case (4 a b c)
  then show ?thesis by (auto simp: time_simps dest: digit_val_lt)
next
  case (5 a b c d)
  then show ?thesis by (auto simp: time_simps dest: digit_val_lt)
next
  case (6 a b c d e)
  then show ?thesis by (auto simp: time_simps dest: digit_val_lt)
next
  case (7 a b c d e f r)
  then show ?thesis by (simp add: time_colon_rx_def time_compact_rx_def spec_time_def)
qed

lemma normalizeTime_trim: "normalizeTime v = spec_time (trim v)"
  unfolding normalizeTime_def Let_def
  using normalizeTime_body[of "trim v", unfolded Let_def] .

text \<open>
  C6, as the code has it. \<open>normalizeTime\<close> first strips the white space around the value;
  on what is left it is the normalization the specification describes: the colon form,
  then the compact form, hour 0 to 23, minute 00 to 59, the result with a two-digit hour,
  and no result when neither form matches. \<open>930\<close> gives \<open>09:30\<close> and \<open>25:00\<close> gives nothing.
\<close>

theorem normalizeTime_is_spec_after_trim:
  "normalizeTime v = spec_time (trim v)
   \<and> normalizeTime ''930'' = Some ''09:30''
   \<and> normalizeTime ''25:00'' = None"
proof -
  have "spec_time (trim ''930'') = Some ''09:30''"
    by (simp add: trim_def is_space_def spec_time_def spec_hhmm_def is_digit_def digit_val_def)
  moreover have "spec_time (trim ''25:00'') = None"
    by (simp add: trim_def is_space_def spec_time_def spec_hhmm_def is_digit_def digit_val_def)
  ultimately show ?thesis by (simp only: normalizeTime_trim simp_thms)
qed

text \<open>
  The claim as the specification has it fails: \<open> 9:30\<close>, with a leading blank, is of
  neither form, and \<open>normalizeTime\<close> accepts it.
\<close>

theorem normalizeTime_accepts_padded_counterexample:
  "spec_time '' 9:30'' = None \<and> normalizeTime '' 9:30'' = Some ''09:30''"
proof -
  have "spec_time (trim '' 9:30'') = Some ''09:30''"
    by (simp add: trim_def is_space_def spec_time_def spec_hhmm_def is_digit_def digit_val_def)
  moreover have "spec_time '' 9:30'' = None"
    by (simp add: spec_time_def spec_hhmm_def is_digit_def digit_val_def)
  ultimately show ?thesis by (simp only: normalizeTime_trim simp_thms)
qed

subsection \<open>The slug\<close>

lemma trim_leading_dropWhile: "trim_leading p s = dropWhile p s"
  by (induction s) simp_all

lemma trim_trailing_rev: "trim_trailing p s = rev (dropWhile p (rev s))"
proof (induction s)
  case Nil
  then show ?case by simp
next
  case (Cons c cs)
  have e: "trim_trailing p cs = [] \<longleftrightarrow> (\<forall>x\<in>set cs. p x)"
    by (simp add: Cons dropWhile_eq_Nil_conv)
  show ?case
  proof (cases "\<forall>x\<in>set cs. p x")
    case True
    then have "dropWhile p (rev cs @ [c]) = dropWhile p [c]"
      by (simp add: dropWhile_append)
    then show ?thesis using True e by simp
  next
    case False
    then have "dropWhile p (rev cs @ [c]) = dropWhile p (rev cs) @ [c]"
      by (auto simp: dropWhile_append)
    then show ?thesis using False e Cons by simp
  qed
qed

lemma hyphenate_runs_replace:
  "hyphenate_runs False s = replace_runs (\<lambda>c. \<not> is_lower_alnum c) ''-'' s
   \<and> hyphenate_runs True s
       = replace_runs (\<lambda>c. \<not> is_lower_alnum c) ''-'' (dropWhile (\<lambda>c. \<not> is_lower_alnum c) s)"
  by (induction s) simp_all

lemma slugify_spec_slug: "slugify t = spec_slug t"
proof -
  have "trim (toLowerCase t) = trim_trailing is_space (trim_leading is_space (map toLowerCase_char t))"
    by (simp add: trim_def toLowerCase_def trim_leading_dropWhile trim_trailing_rev)
  then show ?thesis
    by (simp add: slugify_def spec_slug_def strip_hyphens_def trim_toLowerCase[symmetric]
          trim_leading_dropWhile trim_trailing_rev hyphenate_runs_replace)
qed

lemma slug_example_1: "slugify ''My Event! 2024'' = ''my-event-2024''" by code_simp
lemma slug_example_2: "slugify ''(2024) Summit'' = ''2024-summit''" by code_simp
lemma slug_example_3: "spec_slug ''(2024) Summit'' = ''2024-summit''" by code_simp

lemma slug_chars: "list_all (\<lambda>c. is_lower_alnum c \<or> c = CHR ''-'') (slugify t)"
proof -
  have "set (slugify t)
          \<subseteq> set (replace_runs (\<lambda>c. \<not> is_lower_alnum c) ''-'' (toLowerCase (trim t)))"
    unfolding slugify_def strip_hyphens_def by (rule strip_subset)
  also have "\<dots> \<subseteq> set ''-'' \<union> {c \<in> set (toLowerCase (trim t)). \<not> \<not> is_lower_alnum c}"
    by (rule replace_runs_subset)
  finally show ?thesis by (auto simp: list_all_iff)
qed

lemma dropWhile_starts: "dropWhile p s = c # cs \<Longrightarrow> \<not> p c"
  using hd_dropWhile[of p s] by auto

lemma strip_keeps_head:
  "\<not> p d \<Longrightarrow> rev (dropWhile p (rev (d # ds))) = d # rev (dropWhile p (rev ds))"
  by (simp add: dropWhile_append)

lemma strip_no_leading: "rev (dropWhile p (rev (dropWhile p s))) = c # cs \<Longrightarrow> \<not> p c"
proof (cases "dropWhile p s")
  case Nil
  assume "rev (dropWhile p (rev (dropWhile p s))) = c # cs"
  then show ?thesis unfolding Nil by simp
next
  case (Cons d ds)
  assume a: "rev (dropWhile p (rev (dropWhile p s))) = c # cs"
  have nd: "\<not> p d" using Cons by (rule dropWhile_starts)
  have "c = d" using a strip_keeps_head[of p d ds, OF nd] unfolding Cons by simp
  then show ?thesis using nd by simp
qed

lemma strip_no_trailing: "rev (dropWhile p xs) = cs @ [c] \<Longrightarrow> \<not> p c"
proof -
  assume "rev (dropWhile p xs) = cs @ [c]"
  then have "dropWhile p xs = c # rev cs" by (metis rev.simps(2) rev_swap)
  then show ?thesis by (rule dropWhile_starts)
qed

lemma slug_ends:
  "slugify t \<noteq> CHR ''-'' # s \<and> slugify t \<noteq> s @ ''-''"
  using strip_no_leading[of "\<lambda>c. c = CHR ''-''" _ "CHR ''-''" s]
    strip_no_trailing[of "\<lambda>c. c = CHR ''-''" _ s "CHR ''-''"]
  unfolding slugify_def strip_hyphens_def by auto

lemma filter_dropWhile: "(\<And>c. p c \<Longrightarrow> \<not> q c) \<Longrightarrow> filter q (dropWhile p s) = filter q s"
  by (induction s) auto

lemma filter_strip:
  "(\<And>c. p c \<Longrightarrow> \<not> q c) \<Longrightarrow> filter q (rev (dropWhile p (rev (dropWhile p s)))) = filter q s"
  by (simp add: filter_dropWhile rev_filter[symmetric])

lemma filter_replace_runs:
  "list_all (\<lambda>c. \<not> q c) r \<Longrightarrow> filter q (replace_runs (\<lambda>c. \<not> q c) r s) = filter q s"
proof (induction "\<lambda>c. \<not> q c" r s rule: replace_runs.induct)
  case (1 r)
  then show ?case by simp
next
  case (2 r c cs)
  have r: "filter q r = []" using 2(3) by (simp add: list_all_iff)
  show ?case
  proof (cases "q c")
    case True
    then show ?thesis using 2 by simp
  next
    case False
    have "filter q (dropWhile (\<lambda>c. \<not> q c) cs) = filter q cs"
      by (rule filter_dropWhile) simp
    then show ?thesis using False 2 r by simp
  qed
qed

lemma slug_letters:
  "filter is_lower_alnum (slugify t) = filter is_lower_alnum (toLowerCase t)"
proof -
  have 1: "filter is_lower_alnum (slugify t)
             = filter is_lower_alnum
                 (replace_runs (\<lambda>c. \<not> is_lower_alnum c) ''-'' (toLowerCase (trim t)))"
    unfolding slugify_def strip_hyphens_def
    by (rule filter_strip) (auto dest: alnum_not_hyphen)
  have 2: "\<dots> = filter is_lower_alnum (toLowerCase (trim t))"
    by (rule filter_replace_runs) (simp add: is_lower_alnum_def is_digit_def)
  have 3: "filter is_lower_alnum (trim (toLowerCase t)) = filter is_lower_alnum (toLowerCase t)"
    unfolding trim_def by (rule filter_strip) (use alnum_not_space in blast)
  show ?thesis using 1 2 3 by (simp add: trim_toLowerCase)
qed

lemma successively_dropWhile: "successively P xs \<Longrightarrow> successively P (dropWhile q xs)"
  by (induction xs) (auto simp: successively_Cons)

lemma replace_runs_head:
  "\<not> p c \<Longrightarrow> replace_runs p r (c # cs) = c # replace_runs p r cs"
  by simp

lemma replace_runs_single:
  "successively (\<lambda>x y. \<not> (x = CHR ''-'' \<and> y = CHR ''-''))
     (replace_runs (\<lambda>c. \<not> is_lower_alnum c) ''-'' s)"
proof (induction "\<lambda>c. \<not> is_lower_alnum c" "''-''" s rule: replace_runs.induct)
  case 1
  then show ?case by simp
next
  case (2 c cs)
  show ?case
  proof (cases "is_lower_alnum c")
    case True
    then show ?thesis using 2 alnum_not_hyphen[OF True] by (simp add: successively_Cons)
  next
    case False
    let ?d = "dropWhile (\<lambda>c. \<not> is_lower_alnum c) cs"
    have ih: "successively (\<lambda>x y. \<not> (x = CHR ''-'' \<and> y = CHR ''-''))
                (replace_runs (\<lambda>c. \<not> is_lower_alnum c) ''-'' ?d)"
      using 2 False by simp
    have "replace_runs (\<lambda>c. \<not> is_lower_alnum c) ''-'' ?d = []
          \<or> hd (replace_runs (\<lambda>c. \<not> is_lower_alnum c) ''-'' ?d) \<noteq> CHR ''-''"
    proof (cases ?d)
      case Nil
      show ?thesis unfolding Nil by simp
    next
      case (Cons e es)
      then have "is_lower_alnum e" using dropWhile_starts[of _ cs e es] by blast
      then show ?thesis unfolding Cons using alnum_not_hyphen by simp
    qed
    then show ?thesis using False ih by (auto simp: successively_Cons)
  qed
qed

lemma successively_rev_sym:
  assumes "\<And>x y. P x y \<longleftrightarrow> P y x"
  shows "successively P (rev xs) \<longleftrightarrow> successively P xs"
proof -
  have "(\<lambda>x y. P y x) = P" using assms by (intro ext) simp
  then show ?thesis by (metis successively_rev)
qed

lemma successively_strip:
  assumes "\<And>x y. P x y \<longleftrightarrow> P y x" "successively P xs"
  shows "successively P (rev (dropWhile q (rev (dropWhile q xs))))"
proof -
  have "successively P (dropWhile q xs)" using assms(2) by (rule successively_dropWhile)
  then have "successively P (rev (dropWhile q xs))"
    using successively_rev_sym[of P, OF assms(1)] by blast
  then have "successively P (dropWhile q (rev (dropWhile q xs)))"
    by (rule successively_dropWhile)
  then show ?thesis using successively_rev_sym[of P, OF assms(1)] by blast
qed

lemma slug_single_hyphens:
  "successively (\<lambda>x y. \<not> (x = CHR ''-'' \<and> y = CHR ''-'')) (slugify t)"
  unfolding slugify_def strip_hyphens_def
proof (rule successively_strip)
  show "\<And>x y. (\<not> (x = CHR ''-'' \<and> y = CHR ''-'')) \<longleftrightarrow> (\<not> (y = CHR ''-'' \<and> x = CHR ''-''))"
    by auto
  show "successively (\<lambda>x y. \<not> (x = CHR ''-'' \<and> y = CHR ''-''))
          (replace_runs (\<lambda>c. \<not> is_lower_alnum c) ''-'' (toLowerCase (trim t)))"
    by (rule replace_runs_single)
qed

lemma slug_no_double_hyphen: "slugify t \<noteq> a @ ''--'' @ b"
proof
  assume "slugify t = a @ ''--'' @ b"
  then have "successively (\<lambda>x y. \<not> (x = CHR ''-'' \<and> y = CHR ''-'')) (a @ ''--'' @ b)"
    using slug_single_hyphens[of t] by simp
  then show False by (simp add: successively_append_iff)
qed

lemma dropWhile_id: "(\<And>c cs. u = c # cs \<Longrightarrow> \<not> p c) \<Longrightarrow> dropWhile p u = u"
  by (cases u) simp_all

lemma strip_idem:
  "rev (dropWhile p (rev (dropWhile p (rev (dropWhile p (rev (dropWhile p s)))))))
     = rev (dropWhile p (rev (dropWhile p s)))"
proof -
  let ?u = "rev (dropWhile p (rev (dropWhile p s)))"
  have 1: "dropWhile p ?u = ?u"
    by (rule dropWhile_id) (rule strip_no_leading)
  have 2: "dropWhile p (rev ?u) = rev ?u"
  proof (rule dropWhile_id)
    fix c cs
    assume "rev ?u = c # cs"
    then have "dropWhile p (rev (dropWhile p s)) = c # cs" by simp
    then show "\<not> p c" by (rule dropWhile_starts)
  qed
  have "rev (dropWhile p (rev (dropWhile p ?u))) = rev (dropWhile p (rev ?u))"
    using 1 by (rule arg_cong)
  also have "\<dots> = rev (rev ?u)" using 2 by (rule arg_cong)
  also have "\<dots> = ?u" by (rule rev_rev_ident)
  finally show ?thesis .
qed

lemma trim_idem: "trim (trim s) = trim s"
  unfolding trim_def by (rule strip_idem)

lemma slugify_trim: "slugify (trim t) = slugify t"
  by (simp add: slugify_def trim_idem)

section \<open>Properties of the Event hook\<close>

lemma check_required_find:
  "check_required fs doc =
     map_option (\<lambda>(field, get). Error (field @ '' is required and must be a non-empty string.''))
       (find (\<lambda>(field, get). blank (get doc)) fs)"
  by (induction fs doc rule: check_required.induct)
     (auto simp: blank_def split: option.splits)

lemma check_required_first_blank:
  "check_required requiredStringFields doc =
     map_option (\<lambda>field. Error (field @ '' is required and must be a non-empty string.''))
       (first_blank doc)"
  unfolding first_blank_def check_required_find
  by (cases "find (\<lambda>(field, get). blank (get doc)) requiredStringFields") auto

lemma check_required_None:
  "check_required fs doc = None \<Longrightarrow> (field, get) \<in> set fs \<Longrightarrow> \<not> blank (get doc)"
  by (auto simp: check_required_find find_None_iff)

lemma required_present:
  assumes "check_required requiredStringFields doc = None"
  shows "\<not> blank (title doc)" "\<not> blank (date doc)" "\<not> blank (time doc)"
proof -
  have "(''title'', title) \<in> set requiredStringFields"
    by (simp add: requiredStringFields_def)
  then show "\<not> blank (title doc)" using assms by (rule check_required_None[rotated])
  have "(''date'', date) \<in> set requiredStringFields"
    by (simp add: requiredStringFields_def)
  then show "\<not> blank (date doc)" using assms by (rule check_required_None[rotated])
  have "(''time'', time) \<in> set requiredStringFields"
    by (simp add: requiredStringFields_def)
  then show "\<not> blank (time doc)" using assms by (rule check_required_None[rotated])
qed

lemma not_blank: "\<not> blank v \<Longrightarrow> \<exists>s. v = Some s \<and> trim s \<noteq> [] \<and> s \<noteq> []"
  by (cases v) (auto simp: blank_def trim_def)

lemma step_slug_titled:
  "title doc = Some t \<Longrightarrow>
   step_slug doc =
     (if isModified_title doc \<or> \<not> truthy (slug doc) then doc\<lparr>slug := Some (slugify t)\<rparr> else doc,
      None)"
  by (simp add: step_slug_def)

lemma step_date_fields:
  "(fst (step_date P d))\<lparr>date := date d\<rparr> = d"
  by (auto simp: step_date_def split: option.splits)

lemma step_time_fields:
  "(fst (step_time d))\<lparr>time := time d\<rparr> = d"
  by (auto simp: step_time_def split: option.splits)

lemma step_date_slug: "slug (fst (step_date P d)) = slug d"
  by (auto simp: step_date_def split: option.splits)

lemma step_time_slug: "slug (fst (step_time d)) = slug d"
  by (auto simp: step_time_def split: option.splits)

lemma step_date_failure: "step_date P d = (d', Some e) \<Longrightarrow> d' = d"
  by (auto simp: step_date_def split: option.splits if_splits)

lemma step_time_failure: "step_time d = (d', Some e) \<Longrightarrow> d' = d"
  by (auto simp: step_time_def split: option.splits if_splits)

lemma preSave_checked:
  "checks_pass doc \<Longrightarrow>
   preSave P doc =
     (case step_slug doc of
        (doc1, Some e) \<Rightarrow> (doc1, Some e)
      | (doc1, None) \<Rightarrow>
     (case step_date P doc1 of
        (doc2, Some e) \<Rightarrow> (doc2, Some e)
      | (doc2, None) \<Rightarrow> step_time doc2))"
  by (simp add: preSave_def checks_pass_def)

lemma preSave_success:
  assumes "preSave P doc = (doc', None)"
  shows "checks_pass doc"
    and "\<exists>d1 d2. step_slug doc = (d1, None) \<and> step_date P d1 = (d2, None)
           \<and> step_time d2 = (doc', None)"
  using assms
  by (auto simp: preSave_def checks_pass_def split: option.splits prod.splits)

lemma preSave_slug:
  assumes "checks_pass doc" "title doc = Some t"
  shows "slug (fst (preSave P doc)) =
           (if isModified_title doc \<or> \<not> truthy (slug doc) then Some (slugify t) else slug doc)"
proof -
  let ?d1 = "if isModified_title doc \<or> \<not> truthy (slug doc)
             then doc\<lparr>slug := Some (slugify t)\<rparr> else doc"
  have s: "step_slug doc = (?d1, None)" using assms(2) by (rule step_slug_titled)
  have "slug (fst (preSave P doc)) = slug ?d1"
  proof (cases "step_date P ?d1")
    case (Pair d2 r)
    have d2: "slug d2 = slug ?d1" using step_date_slug[of P ?d1] Pair by simp
    show ?thesis
    proof (cases r)
      case None
      then show ?thesis
        using Pair d2 step_time_slug[of d2]
        by (simp add: preSave_checked[OF assms(1)] s)
    next
      case (Some e)
      then show ?thesis
        using Pair d2 by (simp add: preSave_checked[OF assms(1)] s)
    qed
  qed
  then show ?thesis by simp
qed

lemma preSave_kept_slug:
  "preSave P doc = (doc', None) \<Longrightarrow> \<exists>t. title doc = Some t \<and>
     slug doc' = (if isModified_title doc \<or> \<not> truthy (slug doc)
                  then Some (slugify t) else slug doc)"
proof -
  assume a: "preSave P doc = (doc', None)"
  then have c: "checks_pass doc" by (rule preSave_success(1))
  then have "\<not> blank (title doc)" using required_present(1) by (simp add: checks_pass_def)
  then obtain t where t: "title doc = Some t" using not_blank by blast
  show ?thesis using preSave_slug[OF c t, where P = P] a t by simp
qed

text \<open>
  C4, as the code has it. An accepted document leaves the hook with a slug, and that
  slug is non-empty exactly when it was kept (the title not modified and a non-empty slug
  there) or the title has a character that lower-cases into \<open>[a-z0-9]\<close>.
\<close>

theorem accepted_slug_nonempty_iff:
  "preSave P doc = (doc', None) \<longrightarrow>
     (\<exists>s. slug doc' = Some s
        \<and> (s \<noteq> [] \<longleftrightarrow>
             (\<not> isModified_title doc \<and> truthy (slug doc))
             \<or> (\<exists>t. title doc = Some t
                   \<and> list_ex (\<lambda>c. is_lower_alnum (toLowerCase_char c)) t)))"
proof
  assume a: "preSave P doc = (doc', None)"
  then obtain t where t: "title doc = Some t"
    and s: "slug doc' = (if isModified_title doc \<or> \<not> truthy (slug doc)
                         then Some (slugify t) else slug doc)"
    using preSave_kept_slug by blast
  show "\<exists>s. slug doc' = Some s
        \<and> (s \<noteq> [] \<longleftrightarrow>
             (\<not> isModified_title doc \<and> truthy (slug doc))
             \<or> (\<exists>t. title doc = Some t
                   \<and> list_ex (\<lambda>c. is_lower_alnum (toLowerCase_char c)) t))"
  proof (cases "isModified_title doc \<or> \<not> truthy (slug doc)")
    case True
    then show ?thesis using s t slugify_nonempty_iff[of t] by auto
  next
    case False
    then obtain s0 where "slug doc = Some s0" "s0 \<noteq> []"
      by (auto simp: truthy_def split: option.splits)
    then show ?thesis using s False by auto
  qed
qed

theorem accepted_slug_nonempty_iff_witness:
  "preSave engine_utc sample_event
     = (sample_event\<lparr>slug := Some ''my-event-2024'', date := Some ''2024-03-05'',
                      time := Some ''09:30''\<rparr>, None)
   \<and> slug (sample_event\<lparr>slug := Some ''my-event-2024'', date := Some ''2024-03-05'',
                      time := Some ''09:30''\<rparr>) = Some ''my-event-2024''
   \<and> title sample_event = Some ''My Event! 2024''
   \<and> list_ex (\<lambda>c. is_lower_alnum (toLowerCase_char c)) ''My Event! 2024''"
proof -
  have p: "preSave engine_utc sample_event
     = (sample_event\<lparr>slug := Some ''my-event-2024'', date := Some ''2024-03-05'',
                      time := Some ''09:30''\<rparr>, None)"
    by code_simp
  have t: "title sample_event = Some ''My Event! 2024''" by (simp add: sample_event_def)
  have m: "isModified_title sample_event" by (simp add: sample_event_def)
  show ?thesis
    using accepted_slug_nonempty_iff[of engine_utc sample_event
      "sample_event\<lparr>slug := Some ''my-event-2024'', date := Some ''2024-03-05'',
                      time := Some ''09:30''\<rparr>"] p t m
    by auto
qed

text \<open>
  The claim as the specification has it fails: the title \<open>!!!\<close> is not empty once
  trimmed, the document is accepted, and its slug is the empty string.
\<close>

theorem accepted_slug_empty_counterexample:
  "preSave engine_utc (sample_event\<lparr>title := Some ''!!!''\<rparr>)
     = (sample_event\<lparr>title := Some ''!!!'', slug := Some [], date := Some ''2024-03-05'',
                      time := Some ''09:30''\<rparr>, None)"
  by code_simp

subsection \<open>Before the write\<close>

lemma event_setters_fields:
  "title (event_setters doc) = map_option trim (title doc)"
  "slug (event_setters doc) = slug doc"
  "date (event_setters doc) = date doc"
  "time (event_setters doc) = time doc"
  "agenda (event_setters doc) = agenda doc"
  "tags (event_setters doc) = tags doc"
  "isModified_title (event_setters doc) = isModified_title doc"
  by (simp_all add: event_setters_def)

lemma prepareForPersist_invalid:
  "event_invalid (event_setters doc) \<noteq> [] \<Longrightarrow>
   prepareForPersist P doc
     = (event_setters doc, Some (ValidationError (event_invalid (event_setters doc))))"
  by (cases "event_invalid (event_setters doc)") (simp_all add: prepareForPersist_def)

lemma prepareForPersist_valid:
  "event_invalid (event_setters doc) = [] \<Longrightarrow>
   prepareForPersist P doc = preSave P (event_setters doc)"
  by (simp add: prepareForPersist_def)

lemma prepareForPersist_success:
  assumes "prepareForPersist P doc = (doc', None)"
  shows "event_invalid (event_setters doc) = []" "preSave P (event_setters doc) = (doc', None)"
proof -
  show v: "event_invalid (event_setters doc) = []"
  proof (rule ccontr)
    assume "event_invalid (event_setters doc) \<noteq> []"
    then show False using assms prepareForPersist_invalid[of doc P] by simp
  qed
  show "preSave P (event_setters doc) = (doc', None)"
    using assms prepareForPersist_valid[OF v, of P] by simp
qed

lemma prepared_slug:
  assumes "prepareForPersist P doc = (doc', None)"
    "isModified_title doc \<or> \<not> truthy (slug doc)"
  shows "\<exists>t. title doc = Some t \<and> slug doc' = Some (spec_slug t)"
proof -
  have p: "preSave P (event_setters doc) = (doc', None)"
    using assms(1) by (rule prepareForPersist_success(2))
  obtain t where t: "title (event_setters doc) = Some t"
    and s: "slug doc' = (if isModified_title (event_setters doc)
                            \<or> \<not> truthy (slug (event_setters doc))
                         then Some (slugify t) else slug (event_setters doc))"
    using preSave_kept_slug[OF p] by blast
  obtain t' where t': "title doc = Some t'" "t = trim t'"
    using t by (auto simp: event_setters_fields)
  have "slug doc' = Some (slugify t)" using s assms(2) by (simp add: event_setters_fields)
  then have "slug doc' = Some (slugify t')"
    by (simp add: t'(2) slugify_trim)
  then have "slug doc' = Some (spec_slug t')"
    by (simp only: slugify_spec_slug)
  then show ?thesis using t'(1) by blast
qed

text \<open>
  C8. The slug the code computes is the one the specification describes: the title
  lower-cased, trimmed, every maximal run of characters outside \<open>[a-z0-9]\<close> replaced by
  one hyphen, the hyphens at both ends trimmed. So a slug has only characters of
  \<open>[a-z0-9]\<close> and hyphens, neither begins nor ends with a hyphen, has no two hyphens in
  a row, and its letters and digits are those of the lower-cased title, in their order.
  A document whose title is modified, or whose slug is absent or empty, leaves the hook
  with that slug of its title once the hook's three checks have passed, and is prepared
  for the write with it. \<open>My Event! 2024\<close> gives \<open>my-event-2024\<close>, and
  \<open>(2024) Summit\<close> gives \<open>2024-summit\<close>.
\<close>

theorem slug_recomputed_from_title:
  "slugify t = spec_slug t
   \<and> list_all (\<lambda>c. is_lower_alnum c \<or> c = CHR ''-'') (slugify t)
   \<and> slugify t \<noteq> CHR ''-'' # s \<and> slugify t \<noteq> s @ ''-''
   \<and> slugify t \<noteq> a @ ''--'' @ b
   \<and> filter is_lower_alnum (slugify t) = filter is_lower_alnum (toLowerCase t)
   \<and> (checks_pass doc \<and> (isModified_title doc \<or> \<not> truthy (slug doc)) \<longrightarrow>
        (\<exists>t'. title doc = Some t' \<and> slug (fst (preSave P doc)) = Some (spec_slug t')))
   \<and> (prepareForPersist P doc = (doc', None)
        \<and> (isModified_title doc \<or> \<not> truthy (slug doc)) \<longrightarrow>
        (\<exists>t'. title doc = Some t' \<and> slug doc' = Some (spec_slug t')))
   \<and> slugify ''My Event! 2024'' = ''my-event-2024''
   \<and> slugify ''(2024) Summit'' = ''2024-summit''"
proof -
  have 1: "slugify t = spec_slug t" by (rule slugify_spec_slug)
  have 2: "checks_pass doc \<and> (isModified_title doc \<or> \<not> truthy (slug doc)) \<longrightarrow>
        (\<exists>t'. title doc = Some t' \<and> slug (fst (preSave P doc)) = Some (spec_slug t'))"
  proof
    assume a: "checks_pass doc \<and> (isModified_title doc \<or> \<not> truthy (slug doc))"
    then have "\<not> blank (title doc)"
      using required_present(1) by (simp add: checks_pass_def)
    then obtain t' where t': "title doc = Some t'" using not_blank by blast
    have "slug (fst (preSave P doc)) = Some (spec_slug t')"
      using preSave_slug[of doc t' P] a t' by (simp add: slugify_spec_slug)
    then show "\<exists>t'. title doc = Some t' \<and> slug (fst (preSave P doc)) = Some (spec_slug t')"
      using t' by blast
  qed
  have 3: "prepareForPersist P doc = (doc', None)
        \<and> (isModified_title doc \<or> \<not> truthy (slug doc)) \<longrightarrow>
        (\<exists>t'. title doc = Some t' \<and> slug doc' = Some (spec_slug t'))"
    using prepared_slug by blast
  show ?thesis
    using 1 2 3 slug_chars[of t] slug_ends[of t s] slug_no_double_hyphen[of t a b]
      slug_letters[of t] slug_example_1 slug_example_2
    by blast
qed

theorem slug_recomputed_from_title_witness:
  "checks_pass sample_event
   \<and> (isModified_title sample_event \<or> \<not> truthy (slug sample_event))
   \<and> title sample_event = Some ''My Event! 2024''
   \<and> slug (fst (preSave engine_utc sample_event)) = Some (spec_slug ''My Event! 2024'')
   \<and> prepareForPersist engine_utc sample_event
       = (sample_event\<lparr>slug := Some ''my-event-2024'', date := Some ''2024-03-05'',
                        time := Some ''09:30''\<rparr>, None)
   \<and> slug (sample_event\<lparr>slug := Some ''my-event-2024'', date := Some ''2024-03-05'',
                        time := Some ''09:30''\<rparr>) = Some (spec_slug ''My Event! 2024'')
   \<and> spec_slug ''My Event! 2024'' = ''my-event-2024''"
proof -
  have c: "checks_pass sample_event" by code_simp
  have m: "isModified_title sample_event" by (simp add: sample_event_def)
  have t: "title sample_event = Some ''My Event! 2024''" by (simp add: sample_event_def)
  have p: "prepareForPersist engine_utc sample_event
       = (sample_event\<lparr>slug := Some ''my-event-2024'', date := Some ''2024-03-05'',
                        time := Some ''09:30''\<rparr>, None)"
    by code_simp
  show ?thesis
    using slug_recomputed_from_title
      [where t = "''My Event! 2024''" and doc = sample_event and P = engine_utc
         and doc' = "sample_event\<lparr>slug := Some ''my-event-2024'', date := Some ''2024-03-05'',
                        time := Some ''09:30''\<rparr>"] c m t p
    by auto
qed

lemma required_string_Nil: "required_string path v = [] \<longleftrightarrow> truthy v"
  by (simp add: required_string_def)

lemma validated_array_Nil: "validated_array path m v = [] \<longleftrightarrow> (\<exists>xs. v = Some xs \<and> xs \<noteq> [])"
  by (cases v) (auto simp: validated_array_def)

lemma event_valid_arrays:
  "event_invalid d = [] \<Longrightarrow> check_agenda d = None \<and> check_tags d = None"
  by (auto simp: event_invalid_def validated_array_Nil check_agenda_def check_tags_def)

lemma Event_save_failure:
  "Event_save P events doc = (events', doc', Some e) \<Longrightarrow> events' = events"
  by (auto simp: Event_save_def split: prod.splits option.splits if_splits)

lemma Event_save_error:
  "prepareForPersist P doc = (d, Some e) \<Longrightarrow> Event_save P events doc = (events, d, Some e)"
  by (simp add: Event_save_def)

lemma in_required_string:
  "(p, m) \<in> set (required_string path v) \<longleftrightarrow> p = path \<and> m = required_message path \<and> \<not> truthy v"
  by (auto simp: required_string_def)

lemma in_validated_array:
  "(p, m) \<in> set (validated_array path msg v) \<longleftrightarrow>
     p = path \<and> (v = None \<and> m = required_message path \<or> v = Some [] \<and> m = msg)"
  by (cases v) (auto simp: validated_array_def)

lemma event_invalid_agenda:
  "(''agenda'', m) \<in> set (event_invalid d) \<longleftrightarrow>
     (agenda d = None \<and> m = required_message ''agenda''
      \<or> agenda d = Some [] \<and> m = ''Agenda must contain at least one item.'')"
  by (simp add: event_invalid_def in_required_string in_validated_array)

lemma event_invalid_tags:
  "(''tags'', m) \<in> set (event_invalid d) \<longleftrightarrow>
     (tags d = None \<and> m = required_message ''tags''
      \<or> tags d = Some [] \<and> m = ''Tags must contain at least one tag.'')"
  by (simp add: event_invalid_def in_required_string in_validated_array)

lemma event_invalid_strings:
  "list_all (\<lambda>(field, get).
       ((field, required_message field) \<in> set (event_invalid d)) = (\<not> truthy (get d)))
     requiredStringFields"
  unfolding requiredStringFields_def
  by (simp add: event_invalid_def in_required_string in_validated_array)

text \<open>
  C9, as the code has it. A failure blocks the write: the save ends with the error and the
  collection is as it was. The schema's validation comes first and checks every path: its
  error names all the failing paths together, each with its own message, so a check does
  run after another has failed; the hook does not run then. Only when the validation
  has passed do the steps of the hook run, in the order of the hook, and the first that
  fails ends it with its error (for a required string field the error names the first
  blank one; the date step and the time step each have their one message); the
  empty-array checks of the hook cannot fail any more.
\<close>

theorem event_failure_blocks_write:
  "(Event_save P events doc = (events', doc', Some e) \<longrightarrow> events' = events)
   \<and> (event_invalid (event_setters doc) \<noteq> [] \<longrightarrow>
        Event_save P events doc
          = (events, event_setters doc,
             Some (ValidationError (event_invalid (event_setters doc)))))
   \<and> list_all (\<lambda>(field, get).
          ((field, required_message field) \<in> set (event_invalid d)) = (\<not> truthy (get d)))
        requiredStringFields
   \<and> ((''agenda'', m) \<in> set (event_invalid d) \<longleftrightarrow>
         (agenda d = None \<and> m = required_message ''agenda''
          \<or> agenda d = Some [] \<and> m = ''Agenda must contain at least one item.''))
   \<and> ((''tags'', m) \<in> set (event_invalid d) \<longleftrightarrow>
         (tags d = None \<and> m = required_message ''tags''
          \<or> tags d = Some [] \<and> m = ''Tags must contain at least one tag.''))
   \<and> (event_invalid d = [] \<longrightarrow> check_agenda d = None \<and> check_tags d = None)
   \<and> check_required requiredStringFields d
       = map_option (\<lambda>field. Error (field @ '' is required and must be a non-empty string.''))
           (first_blank d)
   \<and> (event_invalid (event_setters doc) = []
        \<and> check_required requiredStringFields (event_setters doc) = Some e \<longrightarrow>
        Event_save P events doc = (events, event_setters doc, Some e))
   \<and> (event_invalid (event_setters doc) = []
        \<and> check_required requiredStringFields (event_setters doc) = None
        \<and> step_slug (event_setters doc) = (d1, None) \<and> snd (step_date P d1) = Some e \<longrightarrow>
        Event_save P events doc = (events, d1, Some e))
   \<and> (event_invalid (event_setters doc) = []
        \<and> check_required requiredStringFields (event_setters doc) = None
        \<and> step_slug (event_setters doc) = (d1, None) \<and> step_date P d1 = (d2, None)
        \<and> snd (step_time d2) = Some e \<longrightarrow>
        Event_save P events doc = (events, d2, Some e))
   \<and> (snd (step_date P d) = Some e \<longrightarrow>
        e = Error ''Invalid date format. Expected a valid date string.'')
   \<and> (snd (step_time d) = Some e \<longrightarrow>
        e = Error ''Invalid time format. Use HH:mm or a similar 24h format.'')"
proof -
  let ?d = "event_setters doc"
  have 1: "Event_save P events doc = (events', doc', Some e) \<longrightarrow> events' = events"
    using Event_save_failure by blast
  have 2: "event_invalid ?d \<noteq> [] \<longrightarrow>
        Event_save P events doc = (events, ?d, Some (ValidationError (event_invalid ?d)))"
    by (simp add: prepareForPersist_invalid Event_save_error)
  have 3: "event_invalid d = [] \<longrightarrow> check_agenda d = None \<and> check_tags d = None"
    using event_valid_arrays by blast
  have 4: "check_required requiredStringFields d
       = map_option (\<lambda>field. Error (field @ '' is required and must be a non-empty string.''))
           (first_blank d)"
    by (rule check_required_first_blank)
  have 5: "event_invalid ?d = [] \<and> check_required requiredStringFields ?d = Some e \<longrightarrow>
        Event_save P events doc = (events, ?d, Some e)"
  proof
    assume a: "event_invalid ?d = [] \<and> check_required requiredStringFields ?d = Some e"
    then have "prepareForPersist P doc = (?d, Some e)"
      by (simp add: prepareForPersist_valid preSave_def)
    then show "Event_save P events doc = (events, ?d, Some e)" by (rule Event_save_error)
  qed
  have 6: "event_invalid ?d = [] \<and> check_required requiredStringFields ?d = None
        \<and> step_slug ?d = (d1, None) \<and> snd (step_date P d1) = Some e \<longrightarrow>
        Event_save P events doc = (events, d1, Some e)"
  proof
    assume a: "event_invalid ?d = [] \<and> check_required requiredStringFields ?d = None
        \<and> step_slug ?d = (d1, None) \<and> snd (step_date P d1) = Some e"
    then have c: "checks_pass ?d" using event_valid_arrays[of ?d] by (simp add: checks_pass_def)
    obtain x where x: "step_date P d1 = (x, Some e)" using a by (cases "step_date P d1") auto
    then have "x = d1" by (rule step_date_failure)
    then have "preSave P ?d = (d1, Some e)" using a x by (simp add: preSave_checked[OF c])
    then have "prepareForPersist P doc = (d1, Some e)"
      using a by (simp add: prepareForPersist_valid)
    then show "Event_save P events doc = (events, d1, Some e)" by (rule Event_save_error)
  qed
  have 7: "event_invalid ?d = [] \<and> check_required requiredStringFields ?d = None
        \<and> step_slug ?d = (d1, None) \<and> step_date P d1 = (d2, None)
        \<and> snd (step_time d2) = Some e \<longrightarrow>
        Event_save P events doc = (events, d2, Some e)"
  proof
    assume a: "event_invalid ?d = [] \<and> check_required requiredStringFields ?d = None
        \<and> step_slug ?d = (d1, None) \<and> step_date P d1 = (d2, None)
        \<and> snd (step_time d2) = Some e"
    then have c: "checks_pass ?d" using event_valid_arrays[of ?d] by (simp add: checks_pass_def)
    obtain x where x: "step_time d2 = (x, Some e)" using a by (cases "step_time d2") auto
    then have "x = d2" by (rule step_time_failure)
    then have "preSave P ?d = (d2, Some e)" using a x by (simp add: preSave_checked[OF c])
    then have "prepareForPersist P doc = (d2, Some e)"
      using a by (simp add: prepareForPersist_valid)
    then show "Event_save P events doc = (events, d2, Some e)" by (rule Event_save_error)
  qed
  have 8: "snd (step_date P d) = Some e \<longrightarrow>
        e = Error ''Invalid date format. Expected a valid date string.''"
    by (auto simp: step_date_def split: option.splits if_splits)
  have 9: "snd (step_time d) = Some e \<longrightarrow>
        e = Error ''Invalid time format. Use HH:mm or a similar 24h format.''"
    by (auto simp: step_time_def split: option.splits if_splits)
  show ?thesis
    using 1 2 3 4 5 6 7 8 9 event_invalid_strings[of d] event_invalid_agenda[of m d]
      event_invalid_tags[of m d]
    by (intro conjI) blast+
qed

theorem event_failure_blocks_write_witness:
  "event_invalid (event_setters (sample_event\<lparr>venue := Some ''   ''\<rparr>)) \<noteq> []
   \<and> Event_save engine_utc [] (sample_event\<lparr>venue := Some ''   ''\<rparr>)
       = ([], sample_event\<lparr>venue := Some ''''\<rparr>,
          Some (ValidationError [(''venue'', ''Path `venue` is required.'')]))
   \<and> event_invalid (event_setters (sample_event\<lparr>date := Some ''   ''\<rparr>)) = []
   \<and> check_required requiredStringFields (event_setters (sample_event\<lparr>date := Some ''   ''\<rparr>))
       = Some (Error ''date is required and must be a non-empty string.'')
   \<and> Event_save engine_utc [] (sample_event\<lparr>date := Some ''   ''\<rparr>)
       = ([], sample_event\<lparr>date := Some ''   ''\<rparr>,
          Some (Error ''date is required and must be a non-empty string.''))
   \<and> snd (step_date engine_utc (sample_event\<lparr>date := Some ''someday'', slug := Some ''my-event-2024''\<rparr>))
       = Some (Error ''Invalid date format. Expected a valid date string.'')
   \<and> Event_save engine_utc [] (sample_event\<lparr>date := Some ''someday''\<rparr>)
       = ([], sample_event\<lparr>date := Some ''someday'', slug := Some ''my-event-2024''\<rparr>,
          Some (Error ''Invalid date format. Expected a valid date string.''))
   \<and> snd (step_time (sample_event\<lparr>time := Some ''25:00'', slug := Some ''my-event-2024'',
                                    date := Some ''2024-03-05''\<rparr>))
       = Some (Error ''Invalid time format. Use HH:mm or a similar 24h format.'')
   \<and> Event_save engine_utc [] (sample_event\<lparr>time := Some ''25:00''\<rparr>)
       = ([], sample_event\<lparr>time := Some ''25:00'', slug := Some ''my-event-2024'',
                           date := Some ''2024-03-05''\<rparr>,
          Some (Error ''Invalid time format. Use HH:mm or a similar 24h format.''))
   \<and> event_invalid sample_event = []
   \<and> check_agenda sample_event = None
   \<and> check_tags sample_event = None
   \<and> first_blank (sample_event\<lparr>date := Some ''   ''\<rparr>) = Some ''date''
   \<and> (''agenda'', ''Agenda must contain at least one item.'')
       \<in> set (event_invalid (sample_event\<lparr>agenda := Some []\<rparr>))"
proof -
  let ?v = "sample_event\<lparr>venue := Some ''   ''\<rparr>"
  let ?v' = "sample_event\<lparr>venue := Some ''''\<rparr>"
  let ?b = "sample_event\<lparr>date := Some ''   ''\<rparr>"
  let ?s = "sample_event\<lparr>date := Some ''someday''\<rparr>"
  let ?s1 = "sample_event\<lparr>date := Some ''someday'', slug := Some ''my-event-2024''\<rparr>"
  let ?t = "sample_event\<lparr>time := Some ''25:00''\<rparr>"
  let ?t1 = "sample_event\<lparr>time := Some ''25:00'', slug := Some ''my-event-2024''\<rparr>"
  let ?t2 = "sample_event\<lparr>time := Some ''25:00'', slug := Some ''my-event-2024'',
                           date := Some ''2024-03-05''\<rparr>"
  let ?a = "sample_event\<lparr>agenda := Some []\<rparr>"
  let ?ed = "Error ''date is required and must be a non-empty string.''"
  let ?ei = "Error ''Invalid date format. Expected a valid date string.''"
  let ?et = "Error ''Invalid time format. Use HH:mm or a similar 24h format.''"
  note V = event_failure_blocks_write [where P = engine_utc and events = "[]" and doc = ?v]
  note B = event_failure_blocks_write
      [where P = engine_utc and events = "[]" and doc = ?b and e = ?ed and d = ?b]
  note S = event_failure_blocks_write
      [where P = engine_utc and events = "[]" and doc = ?s and e = ?ei and ?d1.0 = ?s1]
  note T = event_failure_blocks_write
      [where P = engine_utc and events = "[]" and doc = ?t and e = ?et and ?d1.0 = ?t1
         and ?d2.0 = ?t2]
  note E = event_failure_blocks_write [where d = sample_event]
  note A = event_failure_blocks_write
      [where d = ?a and m = "''Agenda must contain at least one item.''"]
  have v1: "event_invalid (event_setters ?v) \<noteq> []" by code_simp
  have v2: "event_setters ?v = ?v'" by code_simp
  have v3: "event_invalid ?v' = [(''venue'', ''Path `venue` is required.'')]"
    by code_simp
  have v: "Event_save engine_utc [] ?v
       = ([], ?v', Some (ValidationError [(''venue'', ''Path `venue` is required.'')]))"
    using V [THEN conjunct2, THEN conjunct1, THEN mp, OF v1] by (simp only: v2 v3)
  have b0: "event_setters ?b = ?b" by code_simp
  have b1: "event_invalid (event_setters ?b) = []" by code_simp
  have b2: "check_required requiredStringFields (event_setters ?b) = Some ?ed" by code_simp
  have b: "Event_save engine_utc [] ?b = ([], ?b, Some ?ed)"
    using B [THEN conjunct2, THEN conjunct2, THEN conjunct2, THEN conjunct2, THEN conjunct2,
             THEN conjunct2, THEN conjunct2, THEN conjunct1, THEN mp, OF conjI, OF b1 b2]
    by (simp only: b0)
  have s0: "event_invalid (event_setters ?s) = []" by code_simp
  have s0': "check_required requiredStringFields (event_setters ?s) = None" by code_simp
  have s0'': "step_slug (event_setters ?s) = (?s1, None)" by code_simp
  have s1: "snd (step_date engine_utc ?s1) = Some ?ei" by code_simp
  have s: "Event_save engine_utc [] ?s = ([], ?s1, Some ?ei)"
    by (rule S [THEN conjunct2, THEN conjunct2, THEN conjunct2, THEN conjunct2, THEN conjunct2,
             THEN conjunct2, THEN conjunct2, THEN conjunct2, THEN conjunct1, THEN mp])
       (intro conjI s0 s0' s0'' s1)
  have t0: "event_invalid (event_setters ?t) = []" by code_simp
  have t0': "check_required requiredStringFields (event_setters ?t) = None" by code_simp
  have t0'': "step_slug (event_setters ?t) = (?t1, None)" by code_simp
  have t0''': "step_date engine_utc ?t1 = (?t2, None)" by code_simp
  have t1: "snd (step_time ?t2) = Some ?et" by code_simp
  have t: "Event_save engine_utc [] ?t = ([], ?t2, Some ?et)"
    by (rule T [THEN conjunct2, THEN conjunct2, THEN conjunct2, THEN conjunct2, THEN conjunct2,
             THEN conjunct2, THEN conjunct2, THEN conjunct2, THEN conjunct2, THEN conjunct1,
             THEN mp])
       (intro conjI t0 t0' t0'' t0''' t1)
  have e0: "event_invalid sample_event = []" by code_simp
  note e1 = E [THEN conjunct2, THEN conjunct2, THEN conjunct2, THEN conjunct2, THEN conjunct2,
             THEN conjunct1, THEN mp, OF e0]
  have f: "first_blank ?b = Some ''date''" by code_simp
  have a0: "agenda ?a = Some []" by simp
  have a: "(''agenda'', ''Agenda must contain at least one item.'') \<in> set (event_invalid ?a)"
    by (rule A [THEN conjunct2, THEN conjunct2, THEN conjunct2, THEN conjunct1, THEN iffD2])
       (rule disjI2, rule conjI, rule a0, rule refl)
  show ?thesis
    by (intro conjI v1 v b1 b2 b s1 s t1 t e0 e1 [THEN conjunct1] e1 [THEN conjunct2] f a)
qed

text \<open>
  The claim as the specification has it fails: with an empty agenda and no tags the save
  ends with one validation error that names both paths, so the check of \<open>tags\<close> ran
  after the check of \<open>agenda\<close> had failed. Nothing is written.
\<close>

theorem event_validation_reports_all_counterexample:
  "Event_save engine_utc [] (sample_event\<lparr>agenda := Some [], tags := Some []\<rparr>)
     = ([], sample_event\<lparr>agenda := Some [], tags := Some []\<rparr>,
        Some (ValidationError
          [(''agenda'', ''Agenda must contain at least one item.''),
           (''tags'', ''Tags must contain at least one tag.'')]))"
  by code_simp

section \<open>Properties of the calendar and of the date strings\<close>

lemma div_lo: "0 < n \<Longrightarrow> n * (a div n) \<le> (a::int)"
  by (metis mult.commute div_mult_mod_eq pos_mod_sign add.commute le_add_same_cancel2)

lemma div_hi: "0 < n \<Longrightarrow> (a::int) < n * (a div n) + n"
  by (metis add_less_cancel_left div_mult_mod_eq mult.commute pos_mod_bound)

lemma DayFromYear_upper: "400 * DayFromYear y \<le> 146097 * (y - 1970) + 589"
proof -
  define a where "a = (y - 1969) div 4"
  define b where "b = (y - 1901) div 100"
  define c where "c = (y - 1601) div 400"
  have 1: "4 * a \<le> y - 1969" unfolding a_def by (rule div_lo) simp
  have "y - 1901 < 100 * b + 100" unfolding b_def by (rule div_hi) simp
  then have 2: "y - 1901 \<le> 100 * b + 99" by simp
  have 3: "400 * c \<le> y - 1601" unfolding c_def by (rule div_lo) simp
  have "400 * (365 * (y - 1970) + a - b + c) \<le> 146097 * (y - 1970) + 589"
    using 1 2 3 by simp
  then show ?thesis by (simp add: DayFromYear_def a_def b_def c_def)
qed

lemma DayFromYear_lower: "146097 * (y - 1970) - 506 \<le> 400 * DayFromYear y"
proof -
  define a where "a = (y - 1969) div 4"
  define b where "b = (y - 1901) div 100"
  define c where "c = (y - 1601) div 400"
  have "y - 1969 < 4 * a + 4" unfolding a_def by (rule div_hi) simp
  then have 1: "y - 1969 \<le> 4 * a + 3" by simp
  have 2: "100 * b \<le> y - 1901" unfolding b_def by (rule div_lo) simp
  have "y - 1601 < 400 * c + 400" unfolding c_def by (rule div_hi) simp
  then have 3: "y - 1601 \<le> 400 * c + 399" by simp
  have "146097 * (y - 1970) - 506 \<le> 400 * (365 * (y - 1970) + a - b + c)"
    using 1 2 3 by simp
  then show ?thesis by (simp add: DayFromYear_def a_def b_def c_def)
qed

lemma div_succ:
  "0 < n \<Longrightarrow> (a + 1) div n = (if (a + 1) mod n = 0 then a div n + 1 else (a::int) div n)"
proof -
  assume n: "0 < n"
  define q where "q = a div n"
  define r where "r = a mod n"
  have a: "a = n * q + r" and r: "0 \<le> r" "r < n"
    using n by (simp_all add: q_def r_def)
  show ?thesis
  proof (cases "r + 1 = n")
    case True
    then have "a + 1 = n * (q + 1)" using a by (simp add: algebra_simps)
    then show ?thesis using n by (simp add: q_def)
  next
    case False
    then have lt: "r + 1 < n" using r by simp
    have e: "a + 1 = n * q + (r + 1)" using a by simp
    have "(a + 1) div n = q" unfolding e using r lt n
      by (simp add: div_pos_pos_trivial)
    moreover have "(a + 1) mod n = r + 1" unfolding e using r lt n
      by (simp add: mod_pos_pos_trivial)
    ultimately show ?thesis using r by (simp add: q_def)
  qed
qed

lemma mod_shift: "n dvd k \<Longrightarrow> ((y::int) - k) mod n = 0 \<longleftrightarrow> y mod n = 0"
  by (simp add: mod_eq_0_iff_dvd dvd_diff_left_iff)

lemma mod4_shift: "((y::int) - 1969 + 1) mod 4 = 0 \<longleftrightarrow> y mod 4 = 0"
  using mod_shift[of 4 1968 y] by simp

lemma mod100_shift: "((y::int) - 1901 + 1) mod 100 = 0 \<longleftrightarrow> y mod 100 = 0"
  using mod_shift[of 100 1900 y] by simp

lemma mod400_shift: "((y::int) - 1601 + 1) mod 400 = 0 \<longleftrightarrow> y mod 400 = 0"
  using mod_shift[of 400 1600 y] by simp

lemma mod_400_100: "(y::int) mod 400 = 0 \<Longrightarrow> y mod 100 = 0"
  using dvd_trans[of 100 400 y] by (simp add: mod_eq_0_iff_dvd)

lemma mod_100_4: "(y::int) mod 100 = 0 \<Longrightarrow> y mod 4 = 0"
  using dvd_trans[of 4 100 y] by (simp add: mod_eq_0_iff_dvd)

lemma DayFromYear_step: "DayFromYear (y + 1) = DayFromYear y + DaysInYear y"
proof -
  have a: "(y + 1 - 1969) div 4 = (if y mod 4 = 0 then (y - 1969) div 4 + 1 else (y - 1969) div 4)"
    using div_succ[of 4 "y - 1969"] mod4_shift[of y] by (simp add: algebra_simps)
  have b: "(y + 1 - 1901) div 100
             = (if y mod 100 = 0 then (y - 1901) div 100 + 1 else (y - 1901) div 100)"
    using div_succ[of 100 "y - 1901"] mod100_shift[of y] by (simp add: algebra_simps)
  have c: "(y + 1 - 1601) div 400
             = (if y mod 400 = 0 then (y - 1601) div 400 + 1 else (y - 1601) div 400)"
    using div_succ[of 400 "y - 1601"] mod400_shift[of y] by (simp add: algebra_simps)
  show ?thesis
    unfolding DayFromYear_def DaysInYear_def a b c
    using mod_400_100[of y] mod_100_4[of y] by auto
qed

lemma YearFromDay_bounds:
  "DayFromYear (YearFromDay d) \<le> d \<and> d < DayFromYear (YearFromDay d + 1)"
proof -
  define q where "q = (400 * d) div 146097"
  have q1: "146097 * q \<le> 400 * d" unfolding q_def by (rule div_lo) simp
  have "400 * d < 146097 * q + 146097" unfolding q_def by (rule div_hi) simp
  then have q2: "400 * d \<le> 146097 * q + 146096" by simp
  have lo: "400 * DayFromYear (1970 + q - 1) \<le> 146097 * (q - 1) + 589"
    using DayFromYear_upper[of "1970 + q - 1"] by simp
  have hi: "146097 * (q + 2) - 506 \<le> 400 * DayFromYear (1970 + q + 1 + 1)"
    using DayFromYear_lower[of "1970 + q + 1 + 1"] by simp
  have y: "YearFromDay d =
     (if d < DayFromYear (1970 + q) then 1970 + q - 1
      else if DayFromYear (1970 + q + 1) \<le> d then 1970 + q + 1
      else 1970 + q)"
    by (simp add: YearFromDay_def q_def Let_def)
  show ?thesis
  proof (cases "d < DayFromYear (1970 + q)")
    case True
    have "400 * DayFromYear (1970 + q - 1) \<le> 400 * d" using lo q1 by simp
    then show ?thesis using y True by simp
  next
    case False
    show ?thesis
    proof (cases "DayFromYear (1970 + q + 1) \<le> d")
      case True
      have "400 * d < 400 * DayFromYear (1970 + q + 1 + 1)" using hi q2 by simp
      then show ?thesis using y False True by simp
    next
      case False
      then show ?thesis using y \<open>\<not> d < DayFromYear (1970 + q)\<close> by simp
    qed
  qed
qed

lemma DaysInYear_cases: "DaysInYear y = 365 \<or> DaysInYear y = 366"
  by (simp add: DaysInYear_def)

lemma leap_cases: "leap y = 0 \<or> leap y = 1"
  using DaysInYear_cases[of y] by (auto simp: leap_def)

lemma DayFromYear_after: "DayFromYear y \<le> DayFromYear (y + int k)"
proof (induction k)
  case 0
  then show ?case by simp
next
  case (Suc k)
  have "DayFromYear (y + int (Suc k)) = DayFromYear (y + int k) + DaysInYear (y + int k)"
    using DayFromYear_step[of "y + int k"] by (simp add: ac_simps)
  then show ?case using Suc DaysInYear_cases[of "y + int k"] by auto
qed

lemma DayFromYear_mono: "y \<le> y' \<Longrightarrow> DayFromYear y \<le> DayFromYear y'"
  using DayFromYear_after[of y "nat (y' - y)"] by simp

lemma YearFromDay_unique:
  assumes "DayFromYear y \<le> d" "d < DayFromYear (y + 1)"
  shows "YearFromDay d = y"
proof -
  let ?z = "YearFromDay d"
  have b: "DayFromYear ?z \<le> d" "d < DayFromYear (?z + 1)"
    using YearFromDay_bounds by blast+
  have "\<not> ?z + 1 \<le> y"
    using DayFromYear_mono[of "?z + 1" y] b(2) assms(1) by linarith
  moreover have "\<not> y + 1 \<le> ?z"
    using DayFromYear_mono[of "y + 1" ?z] b(1) assms(2) by linarith
  ultimately show ?thesis by linarith
qed

lemma day_within_year:
  "0 \<le> d - DayFromYear (YearFromDay d)
   \<and> d - DayFromYear (YearFromDay d) < 365 + leap (YearFromDay d)"
  using YearFromDay_bounds[of d] DayFromYear_step[of "YearFromDay d"]
  by (simp add: leap_def)

lemma MonthFromDay_range:
  assumes "0 \<le> dwy" "dwy < 365 + l" "l = 0 \<or> l = 1"
  shows "0 \<le> MonthFromDay l dwy \<and> MonthFromDay l dwy \<le> 11
     \<and> month_start l (MonthFromDay l dwy) \<le> dwy
     \<and> dwy < month_start l (MonthFromDay l dwy + 1)"
  using assms unfolding MonthFromDay_def month_start_def by auto

lemma civil_from_day_valid:
  assumes "civil_from_day d = (y, m, dd)"
  shows "valid_date y m dd \<and> day_from_civil y m dd = d"
proof -
  let ?y = "YearFromDay d"
  let ?w = "d - DayFromYear ?y"
  let ?m = "MonthFromDay (leap ?y) ?w"
  have y: "y = ?y" and m: "m = ?m + 1" and dd: "dd = ?w - month_start (leap ?y) ?m + 1"
    using assms by (auto simp: civil_from_day_def Let_def)
  have r: "0 \<le> ?m \<and> ?m \<le> 11 \<and> month_start (leap ?y) ?m \<le> ?w
     \<and> ?w < month_start (leap ?y) (?m + 1)"
    using day_within_year[of d] leap_cases[of ?y] by (intro MonthFromDay_range) auto
  show ?thesis
    using r by (simp add: valid_date_def day_from_civil_def y m dd)
qed

lemma month_cases:
  "1 \<le> m \<Longrightarrow> m \<le> 12 \<Longrightarrow>
   (m::int) = 1 \<or> m = 2 \<or> m = 3 \<or> m = 4 \<or> m = 5 \<or> m = 6 \<or> m = 7 \<or> m = 8
     \<or> m = 9 \<or> m = 10 \<or> m = 11 \<or> m = 12"
  by presburger

lemma MonthFromDay_unique:
  assumes "1 \<le> m" "m \<le> 12" "month_start l (m - 1) \<le> w" "w < month_start l m"
    "l = 0 \<or> l = 1"
  shows "MonthFromDay l w = m - 1"
  using month_cases[OF assms(1,2)] assms(3,4,5)
  unfolding MonthFromDay_def month_start_def by auto

lemma month_start_bounds:
  "1 \<le> m \<Longrightarrow> m \<le> 12 \<Longrightarrow> l = 0 \<or> l = 1 \<Longrightarrow>
   0 \<le> month_start l (m - 1) \<and> month_start l m \<le> 365 + l"
  using month_cases[of m] unfolding month_start_def by auto

lemma civil_from_day_from_civil:
  assumes "valid_date y m dd"
  shows "civil_from_day (day_from_civil y m dd) = (y, m, dd)"
proof -
  let ?l = "leap y"
  let ?w = "month_start ?l (m - 1) + dd - 1"
  have l: "?l = 0 \<or> ?l = 1" by (rule leap_cases)
  have v: "1 \<le> m" "m \<le> 12" "1 \<le> dd" "dd \<le> month_start ?l m - month_start ?l (m - 1)"
    using assms by (simp_all add: valid_date_def)
  have w0: "month_start ?l (m - 1) \<le> ?w" using v(3) by simp
  have w1: "?w < month_start ?l m" using v(4) by simp
  have s: "0 \<le> month_start ?l (m - 1)" "month_start ?l m \<le> 365 + ?l"
    using month_start_bounds[OF v(1,2) l] by simp_all
  have d: "day_from_civil y m dd = DayFromYear y + ?w" by (simp add: day_from_civil_def)
  have "DayFromYear y \<le> DayFromYear y + ?w" using w0 s(1) by simp
  moreover have "DayFromYear y + ?w < DayFromYear (y + 1)"
    using w1 s(2) by (simp add: DayFromYear_step leap_def)
  ultimately have yy: "YearFromDay (DayFromYear y + ?w) = y" by (rule YearFromDay_unique)
  have mm: "MonthFromDay ?l ?w = m - 1"
    using v(1,2) w0 w1 l by (rule MonthFromDay_unique)
  show ?thesis
    unfolding d civil_from_day_def by (simp add: Let_def yy mm)
qed

lemma YearFromDay_range:
  assumes "- 100000000 \<le> d" "d \<le> 100000000"
  shows "- 271826 \<le> YearFromDay d \<and> YearFromDay d \<le> 275761"
proof -
  let ?y = "YearFromDay d"
  have b: "DayFromYear ?y \<le> d" "d < DayFromYear (?y + 1)"
    using YearFromDay_bounds by blast+
  have 1: "146097 * (?y - 1970) - 506 \<le> 400 * d"
    using DayFromYear_lower[of ?y] b(1) by simp
  have 2: "400 * d < 146097 * (?y + 1 - 1970) + 589"
    using DayFromYear_upper[of "?y + 1"] b(2) by simp
  have "146097 * (?y - 1970) \<le> 40000000506" using 1 assms(2) by simp
  then have u: "?y \<le> 275761" by simp
  have "- 40000000589 < 146097 * (?y + 1 - 1970)" using 2 assms(1) by simp
  then have "- 271826 \<le> ?y" by simp
  then show ?thesis using u by simp
qed

lemma length_digits: "length (digits w n) = w"
  by (induction w arbitrary: n) simp_all

lemma digits_all_digit: "c \<in> set (digits w n) \<Longrightarrow> is_digit c"
  by (induction w arbitrary: n) (auto simp: is_digit_digit_char)

lemma parseInt_snoc: "parseInt (xs @ [c]) = 10 * parseInt xs + digit_val c"
  by (simp add: parseInt_def)

lemma digit_val_digit_char: "digit_val (digit_char n) = n mod 10"
  by (simp add: digit_val_def digit_char_def)

lemma parseInt_digits: "parseInt (digits w n) = n mod 10 ^ w"
proof (induction w arbitrary: n)
  case 0
  then show ?case by (simp add: parseInt_def)
next
  case (Suc w)
  have "n mod (10 * 10 ^ w) = 10 * (n div 10 mod 10 ^ w) + n mod 10"
    by (simp add: mod_mult2_eq)
  then show ?case by (simp add: parseInt_snoc Suc digit_val_digit_char)
qed

lemma digits_0: "digits w 0 = replicate w (CHR ''0'')"
  by (induction w) (simp_all add: digit_char_0 replicate_append_same)

lemma length_toString_nat: "n < 10 ^ w \<Longrightarrow> 0 < w \<Longrightarrow> length (toString_nat n) \<le> w"
proof (induction w arbitrary: n)
  case 0
  then show ?case by simp
next
  case (Suc w)
  show ?case
  proof (cases "n < 10")
    case True
    then show ?thesis by (simp add: toString_nat.simps[of n])
  next
    case False
    then have "0 < w" using Suc.prems(1) by (cases w) auto
    moreover have "n div 10 < 10 ^ w" using Suc.prems(1) by (simp add: less_mult_imp_div_less mult.commute)
    ultimately have "length (toString_nat (n div 10)) \<le> w" using Suc.IH by blast
    then show ?thesis using False by (simp add: toString_nat.simps[of n])
  qed
qed

lemma pad_digits: "n < 10 ^ w \<Longrightarrow> 0 < w \<Longrightarrow> padStart w (CHR ''0'') (toString_nat n) = digits w n"
proof (induction w arbitrary: n)
  case 0
  then show ?case by simp
next
  case (Suc w)
  show ?case
  proof (cases "n < 10")
    case True
    then show ?thesis
      by (simp add: toString_nat.simps[of n] padStart_def digits_0)
  next
    case False
    then have w: "0 < w" using Suc.prems(1) by (cases w) auto
    have d: "n div 10 < 10 ^ w" using Suc.prems(1) by (simp add: less_mult_imp_div_less mult.commute)
    have ih: "padStart w (CHR ''0'') (toString_nat (n div 10)) = digits w (n div 10)"
      using Suc.IH d w by blast
    have l: "length (toString_nat (n div 10)) \<le> w" using d w by (rule length_toString_nat)
    have "padStart (Suc w) (CHR ''0'') (toString_nat n)
            = padStart w (CHR ''0'') (toString_nat (n div 10)) @ [digit_char n]"
      using False l by (simp add: toString_nat.simps[of n] padStart_def Suc_diff_le)
    then show ?thesis by (simp add: ih)
  qed
qed
lemma digits_2: "digits 2 n = [digit_char (n div 10), digit_char n]"
proof -
  have "digits (Suc (Suc 0)) n = [digit_char (n div 10), digit_char n]" by simp
  then show ?thesis by (simp only: numeral_2_eq_2)
qed

lemma digits_4:
  "digits 4 n = [digit_char (n div 10 div 10 div 10), digit_char (n div 10 div 10),
                 digit_char (n div 10), digit_char n]"
proof -
  have e: "(4::nat) = Suc (Suc (Suc (Suc 0)))" by simp
  show ?thesis unfolding e by simp
qed

lemma digits_6:
  "digits 6 n = [digit_char (n div 10 div 10 div 10 div 10 div 10),
                 digit_char (n div 10 div 10 div 10 div 10), digit_char (n div 10 div 10 div 10),
                 digit_char (n div 10 div 10), digit_char (n div 10), digit_char n]"
proof -
  have e: "(6::nat) = Suc (Suc (Suc (Suc (Suc (Suc 0)))))" by simp
  show ?thesis unfolding e by simp
qed

lemma pad_nat_digits: "0 \<le> n \<Longrightarrow> n < 10 ^ w \<Longrightarrow> 0 < w \<Longrightarrow> pad_nat w n = digits w (nat n)"
proof -
  assume a: "0 \<le> n" "n < 10 ^ w" "0 < w"
  have "int (nat n) < int (10 ^ w)" using a(1,2) by simp
  then have "nat n < 10 ^ w" by (simp only: of_nat_less_iff)
  then show ?thesis using a(3) by (simp add: pad_nat_def pad_digits)
qed

lemma sign_not_digit: "is_sign c \<Longrightarrow> \<not> is_digit c"
  by (auto simp: is_sign_def is_digit_def)

lemma rx_match_one_cons:
  "rx_match ((p, One) # as) (c # cs) = (if p c then map_option ((#) [c]) (rx_match as cs) else None)"
  by simp

lemma rx_iso_plain:
  assumes "is_digit y1" "is_digit y2" "is_digit y3" "is_digit y4"
    "is_digit m1" "is_digit m2" "is_digit d1" "is_digit d2"
  shows "rx_match iso_date_rx [y1, y2, y3, y4, CHR ''-'', m1, m2, CHR ''-'', d1, d2]
           = Some [[y1], [y2], [y3], [y4], ''-'', [m1], [m2], ''-'', [d1], [d2]]"
  unfolding iso_date_rx_def
  by (simp only: rx_match_one_cons assms is_hyphen_def if_True rx_match.simps(1)
        option.map list.simps simp_thms)

lemma rx_iso_plain_sign:
  "is_sign sg \<Longrightarrow> rx_match iso_date_rx (sg # cs) = None"
  unfolding iso_date_rx_def
  by (simp only: rx_match_one_cons sign_not_digit if_False)

lemma rx_iso_expanded:
  assumes "is_sign sg" "is_digit y1" "is_digit y2" "is_digit y3" "is_digit y4"
    "is_digit y5" "is_digit y6" "is_digit m1" "is_digit m2" "is_digit d1" "is_digit d2"
  shows "rx_match iso_expanded_rx
           [sg, y1, y2, y3, y4, y5, y6, CHR ''-'', m1, m2, CHR ''-'', d1, d2]
         = Some [[sg], [y1], [y2], [y3], [y4], [y5], [y6], ''-'', [m1], [m2], ''-'', [d1], [d2]]"
  unfolding iso_expanded_rx_def
  by (simp only: rx_match_one_cons assms is_hyphen_def if_True rx_match.simps(1)
        option.map list.simps simp_thms)

lemma parse_iso_plain:
  assumes "is_digit y1" "is_digit y2" "is_digit y3" "is_digit y4"
    "is_digit m1" "is_digit m2" "is_digit d1" "is_digit d2"
  shows "parse_iso_date [y1, y2, y3, y4, CHR ''-'', m1, m2, CHR ''-'', d1, d2]
           = make_date (int (parseInt [y1, y2, y3, y4])) (int (parseInt [m1, m2]))
               (int (parseInt [d1, d2]))"
  unfolding parse_iso_date_def rx_iso_plain[OF assms] by simp

lemma parse_iso_expanded:
  assumes "is_sign sg" "is_digit y1" "is_digit y2" "is_digit y3" "is_digit y4"
    "is_digit y5" "is_digit y6" "is_digit m1" "is_digit m2" "is_digit d1" "is_digit d2"
  shows "parse_iso_date [sg, y1, y2, y3, y4, y5, y6, CHR ''-'', m1, m2, CHR ''-'', d1, d2]
           = (if sg = CHR ''-'' \<and> parseInt [y1, y2, y3, y4, y5, y6] = 0 then None
              else make_date
                     (if sg = CHR ''-'' then - int (parseInt [y1, y2, y3, y4, y5, y6])
                      else int (parseInt [y1, y2, y3, y4, y5, y6]))
                     (int (parseInt [m1, m2])) (int (parseInt [d1, d2])))"
  unfolding parse_iso_date_def rx_iso_plain_sign[OF assms(1)] rx_iso_expanded[OF assms]
  by (simp add: Let_def)


lemma valid_date_day: "valid_date y m d \<Longrightarrow> 1 \<le> m \<and> m \<le> 12 \<and> 1 \<le> d \<and> d \<le> 31"
proof -
  assume v: "valid_date y m d"
  then have m: "1 \<le> m" "m \<le> 12" by (simp_all add: valid_date_def)
  have "month_start (leap y) m - month_start (leap y) (m - 1) \<le> 31"
    using month_cases[OF m] leap_cases[of y] unfolding month_start_def by auto
  then show ?thesis using v by (simp add: valid_date_def)
qed

lemma digits_chars:
  "\<exists>a b. digits 2 n = [a, b] \<and> is_digit a \<and> is_digit b"
  by (simp add: digits_2 is_digit_digit_char)

lemma digits_chars4:
  "\<exists>a b c d. digits 4 n = [a, b, c, d] \<and> is_digit a \<and> is_digit b \<and> is_digit c \<and> is_digit d"
  by (simp add: digits_4 is_digit_digit_char)

lemma digits_chars6:
  "\<exists>a b c d e f. digits 6 n = [a, b, c, d, e, f] \<and> is_digit a \<and> is_digit b \<and> is_digit c
     \<and> is_digit d \<and> is_digit e \<and> is_digit f"
  by (simp add: digits_6 is_digit_digit_char)

lemma pad2: "1 \<le> n \<Longrightarrow> n \<le> 31 \<Longrightarrow> pad_nat 2 n = digits 2 (nat n)"
  by (rule pad_nat_digits) simp_all

lemma parseInt_digits_small: "0 \<le> n \<Longrightarrow> n < 10 ^ w \<Longrightarrow> int (parseInt (digits w (nat n))) = n"
proof -
  assume a: "0 \<le> n" "n < 10 ^ w"
  have "int (nat n) < int (10 ^ w)" using a by simp
  then have "nat n < 10 ^ w" by (simp only: of_nat_less_iff)
  then show ?thesis using a(1) by (simp add: parseInt_digits)
qed

lemma iso_shape_plain:
  assumes "0 \<le> y" "y \<le> 9999" "valid_date y m d"
  shows "\<exists>y1 y2 y3 y4 m1 m2 d1 d2.
           iso_date_string y m d = [y1, y2, y3, y4, CHR ''-'', m1, m2, CHR ''-'', d1, d2]
           \<and> [y1, y2, y3, y4] = digits 4 (nat y)
           \<and> [m1, m2] = digits 2 (nat m) \<and> [d1, d2] = digits 2 (nat d)
           \<and> is_digit y1 \<and> is_digit y2 \<and> is_digit y3 \<and> is_digit y4
           \<and> is_digit m1 \<and> is_digit m2 \<and> is_digit d1 \<and> is_digit d2"
proof -
  have r: "1 \<le> m \<and> m \<le> 12 \<and> 1 \<le> d \<and> d \<le> 31" using assms(3) by (rule valid_date_day)
  obtain y1 y2 y3 y4 where y: "digits 4 (nat y) = [y1, y2, y3, y4]"
    "is_digit y1" "is_digit y2" "is_digit y3" "is_digit y4"
    using digits_chars4 by blast
  obtain m1 m2 where m: "digits 2 (nat m) = [m1, m2]" "is_digit m1" "is_digit m2"
    using digits_chars by blast
  obtain d1 d2 where d: "digits 2 (nat d) = [d1, d2]" "is_digit d1" "is_digit d2"
    using digits_chars by blast
  have ys: "year_string y = [y1, y2, y3, y4]"
    using assms(1,2) y(1) by (simp add: year_string_def pad_nat_digits)
  have ms: "pad_nat 2 m = [m1, m2]" using r m(1) by (simp add: pad2)
  have ds: "pad_nat 2 d = [d1, d2]" using r d(1) by (simp add: pad2)
  have "iso_date_string y m d = [y1, y2, y3, y4, CHR ''-'', m1, m2, CHR ''-'', d1, d2]"
    by (simp add: iso_date_string_def ys ms ds)
  then show ?thesis using y m d by (metis (no_types))
qed

lemma iso_shape_expanded:
  assumes "y < 0 \<or> 9999 < y" "- 999999 \<le> y" "y \<le> 999999" "valid_date y m d"
  shows "\<exists>sg y1 y2 y3 y4 y5 y6 m1 m2 d1 d2.
           iso_date_string y m d
             = [sg, y1, y2, y3, y4, y5, y6, CHR ''-'', m1, m2, CHR ''-'', d1, d2]
           \<and> is_sign sg \<and> (sg = CHR ''-'' \<longleftrightarrow> y < 0)
           \<and> [y1, y2, y3, y4, y5, y6] = digits 6 (nat (abs y))
           \<and> [m1, m2] = digits 2 (nat m) \<and> [d1, d2] = digits 2 (nat d)
           \<and> is_digit y1 \<and> is_digit y2 \<and> is_digit y3 \<and> is_digit y4 \<and> is_digit y5
           \<and> is_digit y6 \<and> is_digit m1 \<and> is_digit m2 \<and> is_digit d1 \<and> is_digit d2"
proof -
  have r: "1 \<le> m \<and> m \<le> 12 \<and> 1 \<le> d \<and> d \<le> 31" using assms(4) by (rule valid_date_day)
  obtain y1 y2 y3 y4 y5 y6 where y: "digits 6 (nat (abs y)) = [y1, y2, y3, y4, y5, y6]"
    "is_digit y1" "is_digit y2" "is_digit y3" "is_digit y4" "is_digit y5" "is_digit y6"
    using digits_chars6 by blast
  obtain m1 m2 where m: "digits 2 (nat m) = [m1, m2]" "is_digit m1" "is_digit m2"
    using digits_chars by blast
  obtain d1 d2 where d: "digits 2 (nat d) = [d1, d2]" "is_digit d1" "is_digit d2"
    using digits_chars by blast
  define sg where "sg = (if y < 0 then CHR ''-'' else CHR ''+'')"
  have p6: "pad_nat 6 (abs y) = digits 6 (nat (abs y))"
    using assms(2,3) by (intro pad_nat_digits) auto
  have ys: "year_string y = [sg, y1, y2, y3, y4, y5, y6]"
    using assms(1) y(1) by (auto simp: year_string_def p6 sg_def)
  have ms: "pad_nat 2 m = [m1, m2]" using r m(1) by (simp add: pad2)
  have ds: "pad_nat 2 d = [d1, d2]" using r d(1) by (simp add: pad2)
  have "iso_date_string y m d
          = [sg, y1, y2, y3, y4, y5, y6, CHR ''-'', m1, m2, CHR ''-'', d1, d2]"
    by (simp add: iso_date_string_def ys ms ds)
  moreover have "is_sign sg" "sg = CHR ''-'' \<longleftrightarrow> y < 0"
    by (simp_all add: sg_def is_sign_def)
  ultimately show ?thesis using y m d by (metis (no_types))
qed

lemma parse_iso_date_string:
  assumes "- 999999 \<le> y" "y \<le> 999999" "valid_date y m d"
  shows "parse_iso_date (iso_date_string y m d) = Some (day_from_civil y m d * msPerDay)"
proof -
  have r: "1 \<le> m \<and> m \<le> 12 \<and> 1 \<le> d \<and> d \<le> 31" using assms(3) by (rule valid_date_day)
  have mv: "int (parseInt (digits 2 (nat m))) = m"
    using parseInt_digits_small[of m 2] r by simp
  have dv: "int (parseInt (digits 2 (nat d))) = d"
    using parseInt_digits_small[of d 2] r by simp
  show ?thesis
  proof (cases "0 \<le> y \<and> y \<le> 9999")
    case True
    then obtain y1 y2 y3 y4 m1 m2 d1 d2 where
      s: "iso_date_string y m d = [y1, y2, y3, y4, CHR ''-'', m1, m2, CHR ''-'', d1, d2]"
      and e: "[y1, y2, y3, y4] = digits 4 (nat y)" "[m1, m2] = digits 2 (nat m)"
        "[d1, d2] = digits 2 (nat d)"
      and g: "is_digit y1" "is_digit y2" "is_digit y3" "is_digit y4"
        "is_digit m1" "is_digit m2" "is_digit d1" "is_digit d2"
      using iso_shape_plain[OF _ _ assms(3), of ] by blast
    have yv: "int (parseInt (digits 4 (nat y))) = y"
      using parseInt_digits_small[of y 4] True by simp
    have "parse_iso_date (iso_date_string y m d)
            = make_date (int (parseInt [y1, y2, y3, y4])) (int (parseInt [m1, m2]))
                (int (parseInt [d1, d2]))"
      unfolding s by (rule parse_iso_plain[OF g])
    also have "\<dots> = make_date y m d" by (simp only: e yv mv dv)
    finally show ?thesis using assms(3) by (simp add: make_date_def)
  next
    case False
    then have o: "y < 0 \<or> 9999 < y" by auto
    obtain sg y1 y2 y3 y4 y5 y6 m1 m2 d1 d2 where
      s: "iso_date_string y m d
            = [sg, y1, y2, y3, y4, y5, y6, CHR ''-'', m1, m2, CHR ''-'', d1, d2]"
      and sg: "is_sign sg" "sg = CHR ''-'' \<longleftrightarrow> y < 0"
      and e: "[y1, y2, y3, y4, y5, y6] = digits 6 (nat (abs y))" "[m1, m2] = digits 2 (nat m)"
        "[d1, d2] = digits 2 (nat d)"
      and g: "is_digit y1" "is_digit y2" "is_digit y3" "is_digit y4" "is_digit y5" "is_digit y6"
        "is_digit m1" "is_digit m2" "is_digit d1" "is_digit d2"
      using iso_shape_expanded[OF o assms] by blast
    have yv: "int (parseInt (digits 6 (nat (abs y)))) = abs y"
      using parseInt_digits_small[of "abs y" 6] assms(1,2) by simp
    then have nz: "parseInt (digits 6 (nat (abs y))) \<noteq> 0" using o by auto
    have "parse_iso_date (iso_date_string y m d)
            = (if sg = CHR ''-'' \<and> parseInt [y1, y2, y3, y4, y5, y6] = 0 then None
               else make_date
                     (if sg = CHR ''-'' then - int (parseInt [y1, y2, y3, y4, y5, y6])
                      else int (parseInt [y1, y2, y3, y4, y5, y6]))
                     (int (parseInt [m1, m2])) (int (parseInt [d1, d2])))"
      unfolding s by (rule parse_iso_expanded[OF sg(1) g])
    also have "\<dots> = make_date y m d"
      unfolding e yv mv dv using sg(2) o nz by auto
    finally show ?thesis using assms(3) by (simp add: make_date_def)
  qed
qed

lemma hyphen_is_sign: "is_sign (CHR ''-'')"
  by (simp add: is_sign_def)

lemma iso_date_chars:
  assumes "- 999999 \<le> y" "y \<le> 999999" "valid_date y m d"
  shows "iso_date_string y m d \<noteq> []
         \<and> list_all (\<lambda>c. is_digit c \<or> is_sign c) (iso_date_string y m d)"
proof (cases "0 \<le> y \<and> y \<le> 9999")
  case True
  then obtain y1 y2 y3 y4 m1 m2 d1 d2 where
    s: "iso_date_string y m d = [y1, y2, y3, y4, CHR ''-'', m1, m2, CHR ''-'', d1, d2]"
    and g: "is_digit y1" "is_digit y2" "is_digit y3" "is_digit y4"
      "is_digit m1" "is_digit m2" "is_digit d1" "is_digit d2"
    using iso_shape_plain[OF _ _ assms(3)] by blast
  show ?thesis unfolding s using g by (simp add: hyphen_is_sign)
next
  case False
  then have o: "y < 0 \<or> 9999 < y" by auto
  obtain sg y1 y2 y3 y4 y5 y6 m1 m2 d1 d2 where
    s: "iso_date_string y m d
          = [sg, y1, y2, y3, y4, y5, y6, CHR ''-'', m1, m2, CHR ''-'', d1, d2]"
    and sg: "is_sign sg"
    and g: "is_digit y1" "is_digit y2" "is_digit y3" "is_digit y4" "is_digit y5" "is_digit y6"
      "is_digit m1" "is_digit m2" "is_digit d1" "is_digit d2"
    using iso_shape_expanded[OF o assms] by blast
  show ?thesis unfolding s using g sg by (simp add: hyphen_is_sign)
qed

lemma date_char_not_T: "is_digit c \<or> is_sign c \<Longrightarrow> c \<noteq> CHR ''T''"
  by (auto simp: is_digit_def is_sign_def)

lemma date_char_not_space: "is_digit c \<or> is_sign c \<Longrightarrow> \<not> is_space c"
  by (auto simp: is_digit_def is_sign_def is_space_def)

lemma takeWhile_prefix:
  "list_all P xs \<Longrightarrow> \<not> P y \<Longrightarrow> takeWhile P (xs @ y # ys) = xs"
  by (induction xs) simp_all

lemma dropWhile_none: "list_all (\<lambda>c. \<not> P c) xs \<Longrightarrow> dropWhile P xs = xs"
  by (cases xs) simp_all

lemma trim_unspaced: "list_all (\<lambda>c. \<not> is_space c) s \<Longrightarrow> trim s = s"
proof -
  assume a: "list_all (\<lambda>c. \<not> is_space c) s"
  then have b: "list_all (\<lambda>c. \<not> is_space c) (rev s)" by (simp add: list_all_iff)
  show ?thesis using dropWhile_none[OF a] dropWhile_none[OF b] by (simp add: trim_def)
qed

lemma toISOString_date:
  assumes "civil_from_day (t div msPerDay) = (y, m, d)" "- 999999 \<le> y" "y \<le> 999999"
  shows "split_T_first (toISOString t) = iso_date_string y m d"
proof -
  have v: "valid_date y m d" using civil_from_day_valid[OF assms(1)] by simp
  have c: "list_all (\<lambda>c. c \<noteq> CHR ''T'') (iso_date_string y m d)"
    using iso_date_chars[OF assms(2,3) v] date_char_not_T
    by (auto simp: list_all_iff)
  obtain rest where "toISOString t = iso_date_string y m d @ CHR ''T'' # rest"
    using assms(1) by (simp add: toISOString_def iso_date_string_def Let_def)
  then show ?thesis
    using c by (simp add: split_T_first_def takeWhile_prefix)
qed

lemma new_Date_range: "new_Date P s = Some t \<Longrightarrow> abs t \<le> 8640000000000000"
  by (auto simp: new_Date_def split: option.splits if_splits)

lemma day_range:
  assumes "abs t \<le> 8640000000000000"
  shows "- 100000000 \<le> t div msPerDay \<and> t div msPerDay \<le> 100000000"
proof -
  define q where "q = t div 86400000"
  have 1: "86400000 * q \<le> t" unfolding q_def by (rule div_lo) simp
  have 2: "t < 86400000 * q + 86400000" unfolding q_def by (rule div_hi) simp
  have "86400000 * q \<le> 8640000000000000" using 1 assms by simp
  then have u: "q \<le> 100000000" by simp
  have "- 8640000000000000 < 86400000 * q + 86400000" using 2 assms by simp
  then have "- 100000000 \<le> q" by simp
  then show ?thesis using u by (simp add: msPerDay_def q_def)
qed

lemma day_ms_range:
  assumes "- 100000000 \<le> q" "q \<le> 100000000"
  shows "abs (q * msPerDay) \<le> 8640000000000000" "(q * msPerDay) div msPerDay = q"
  using assms by (simp_all add: msPerDay_def abs_le_iff)

lemma date_normalized:
  assumes "new_Date P s = Some t" "civil_from_day (t div msPerDay) = (y, m, d)"
  shows "split_T_first (toISOString t) = iso_date_string y m d"
    and "valid_date y m d" and "day_from_civil y m d = t div msPerDay"
    and "parse_iso_date (iso_date_string y m d) = Some (t div msPerDay * msPerDay)"
    and "new_Date P (iso_date_string y m d) = Some (t div msPerDay * msPerDay)"
    and "split_T_first (toISOString (t div msPerDay * msPerDay)) = iso_date_string y m d"
    and "trim (iso_date_string y m d) = iso_date_string y m d"
    and "iso_date_string y m d \<noteq> []"
proof -
  have r: "- 100000000 \<le> t div msPerDay \<and> t div msPerDay \<le> 100000000"
    using new_Date_range[OF assms(1)] by (rule day_range)
  have "y = YearFromDay (t div msPerDay)"
    using assms(2) by (auto simp: civil_from_day_def Let_def)
  then have yr: "- 999999 \<le> y" "y \<le> 999999"
    using YearFromDay_range[of "t div msPerDay"] r by simp_all
  show v: "valid_date y m d" and dc: "day_from_civil y m d = t div msPerDay"
    using civil_from_day_valid[OF assms(2)] by simp_all
  show "split_T_first (toISOString t) = iso_date_string y m d"
    using assms(2) yr by (rule toISOString_date)
  show p: "parse_iso_date (iso_date_string y m d) = Some (t div msPerDay * msPerDay)"
    using parse_iso_date_string[OF yr v] dc by simp
  show "new_Date P (iso_date_string y m d) = Some (t div msPerDay * msPerDay)"
    using p day_ms_range(1)[of "t div msPerDay"] r
    by (simp add: new_Date_def Date_parse_def)
  have "civil_from_day ((t div msPerDay * msPerDay) div msPerDay) = (y, m, d)"
    using day_ms_range(2)[of "t div msPerDay"] r assms(2) by simp
  then show "split_T_first (toISOString (t div msPerDay * msPerDay)) = iso_date_string y m d"
    using yr by (rule toISOString_date)
  have c: "list_all (\<lambda>c. is_digit c \<or> is_sign c) (iso_date_string y m d)"
    and ne: "iso_date_string y m d \<noteq> []"
    using iso_date_chars[OF yr v] by simp_all
  show "iso_date_string y m d \<noteq> []" by (rule ne)
  have "list_all (\<lambda>c. \<not> is_space c) (iso_date_string y m d)"
    using c date_char_not_space by (auto simp: list_all_iff)
  then show "trim (iso_date_string y m d) = iso_date_string y m d" by (rule trim_unspaced)
qed

section \<open>Properties of the date step\<close>














section \<open>Normalizing twice\<close>

lemma check_required_None_iff:
  "check_required fs doc = None \<longleftrightarrow> list_all (\<lambda>(field, get). \<not> blank (get doc)) fs"
  by (induction fs doc rule: check_required.induct)
     (auto simp: blank_def split: option.splits)

lemma spec_hhmm_result:
  "spec_hhmm a b c d = Some n \<Longrightarrow>
   n = [a, b, CHR '':'', c, d] \<and> is_digit a \<and> is_digit b \<and> is_digit c \<and> is_digit d"
  by (auto simp: spec_hhmm_def split: if_splits)

lemma spec_time_colon_result:
  "spec_time_colon s = Some n \<Longrightarrow> \<exists>a b c d. spec_hhmm a b c d = Some n"
  by (erule spec_time_colon.elims) (auto split: if_splits)

lemma spec_time_compact_result:
  "spec_time_compact s = Some n \<Longrightarrow> \<exists>a b c d. spec_hhmm a b c d = Some n"
  by (erule spec_time_compact.elims) auto

lemma spec_time_result:
  "spec_time s = Some n \<Longrightarrow> \<exists>a b c d. spec_hhmm a b c d = Some n"
  using spec_time_colon_result spec_time_compact_result
  by (auto simp: spec_time_def split: option.splits)

lemma digit_not_space: "is_digit c \<Longrightarrow> \<not> is_space c"
  by (auto simp: is_digit_def is_space_def)

lemma normalizeTime_idem:
  assumes "normalizeTime s = Some n"
  shows "normalizeTime n = Some n" and "n \<noteq> []"
proof -
  have "spec_time (trim s) = Some n" using assms by (simp add: normalizeTime_trim)
  then obtain a b c d where h: "spec_hhmm a b c d = Some n"
    using spec_time_result by blast
  then have n: "n = [a, b, CHR '':'', c, d]"
    and g: "is_digit a" "is_digit b" "is_digit c" "is_digit d"
    using spec_hhmm_result by blast+
  have cs: "\<not> is_space (CHR '':'')" by (simp add: is_space_def)
  have "list_all (\<lambda>c. \<not> is_space c) n"
    using g cs by (simp add: n digit_not_space)
  then have t: "trim n = n" by (rule trim_unspaced)
  have "spec_time n = Some n" using h by (simp add: n spec_time_def)
  then show "normalizeTime n = Some n" by (simp add: normalizeTime_trim t)
  show "n \<noteq> []" by (simp add: n)
qed

lemma preSave_result:
  assumes "preSave P doc = (doc', None)"
  shows "\<exists>t s ts tm n.
           title doc = Some t \<and> date doc = Some s \<and> s \<noteq> [] \<and> new_Date P s = Some ts
           \<and> time doc = Some tm \<and> tm \<noteq> [] \<and> normalizeTime tm = Some n
           \<and> doc' = doc\<lparr>slug := (if isModified_title doc \<or> \<not> truthy (slug doc)
                                    then Some (slugify t) else slug doc),
                          date := Some (split_T_first (toISOString ts)),
                          time := Some n\<rparr>"
proof -
  have c: "checks_pass doc" using assms by (rule preSave_success(1))
  obtain d1 d2 where s: "step_slug doc = (d1, None)" "step_date P d1 = (d2, None)"
      "step_time d2 = (doc', None)"
    using preSave_success(2)[OF assms] by blast
  have r: "check_required requiredStringFields doc = None" using c by (simp add: checks_pass_def)
  obtain t where t: "title doc = Some t" using required_present(1)[OF r] not_blank by blast
  obtain sd where sd: "date doc = Some sd" "sd \<noteq> []"
    using required_present(2)[OF r] not_blank by blast
  obtain tm where tm: "time doc = Some tm" "tm \<noteq> []"
    using required_present(3)[OF r] not_blank by blast
  let ?sl = "if isModified_title doc \<or> \<not> truthy (slug doc) then Some (slugify t) else slug doc"
  have d1: "d1 = doc\<lparr>slug := ?sl\<rparr>"
  proof (cases "isModified_title doc \<or> \<not> truthy (slug doc)")
    case True
    then show ?thesis using s(1) by (auto simp: step_slug_titled[OF t])
  next
    case False
    then show ?thesis using s(1) by (auto simp: step_slug_titled[OF t])
  qed
  have dd: "date d1 = Some sd" using sd(1) by (simp add: d1)
  obtain ts where ts: "new_Date P sd = Some ts"
      and d2: "d2 = d1\<lparr>date := Some (split_T_first (toISOString ts))\<rparr>"
    using s(2) dd sd(2) by (auto simp: step_date_def split: option.splits)
  have td: "time d2 = Some tm" using tm(1) by (simp add: d2 d1)
  obtain n where n: "normalizeTime tm = Some n" and d3: "doc' = d2\<lparr>time := Some n\<rparr>"
    using s(3) td tm(2) by (auto simp: step_time_def split: option.splits if_splits)
  have "doc' = doc\<lparr>slug := ?sl, date := Some (split_T_first (toISOString ts)), time := Some n\<rparr>"
    by (simp add: d3 d2 d1)
  then show ?thesis using t sd ts tm n by blast
qed

lemma preSave_idempotent_flag:
  assumes "preSave P doc = (doc', None)" "b \<longrightarrow> isModified_title doc"
  shows "preSave P (doc'\<lparr>isModified_title := b\<rparr>) = (doc'\<lparr>isModified_title := b\<rparr>, None)"
proof -
  obtain t s ts tm n where
    t: "title doc = Some t" and s: "date doc = Some s" "s \<noteq> []" "new_Date P s = Some ts"
    and tm: "time doc = Some tm" "tm \<noteq> []" "normalizeTime tm = Some n"
    and d': "doc' = doc\<lparr>slug := (if isModified_title doc \<or> \<not> truthy (slug doc)
                                    then Some (slugify t) else slug doc),
                          date := Some (split_T_first (toISOString ts)),
                          time := Some n\<rparr>"
    using preSave_result[OF assms(1)] by blast
  let ?sl = "if isModified_title doc \<or> \<not> truthy (slug doc) then Some (slugify t) else slug doc"
  let ?r = "doc'\<lparr>isModified_title := b\<rparr>"
  obtain y m d where c: "civil_from_day (ts div msPerDay) = (y, m, d)"
    by (cases "civil_from_day (ts div msPerDay)") auto
  note dn = date_normalized[OF s(3) c]
  let ?iso = "iso_date_string y m d"
  have d'': "?r = doc\<lparr>slug := ?sl, date := Some ?iso, time := Some n, isModified_title := b\<rparr>"
    using d' dn(1) by simp
  note ni = normalizeTime_idem[OF tm(3)]
  have nt: "trim n \<noteq> []" using ni by (auto simp: normalizeTime_trim spec_time_def)
  have cp: "checks_pass doc" using assms(1) by (rule preSave_success(1))
  then have "list_all (\<lambda>(field, get). \<not> blank (get doc)) requiredStringFields"
    by (simp add: checks_pass_def check_required_None_iff)
  then have "list_all (\<lambda>(field, get). \<not> blank (get ?r)) requiredStringFields"
    using nt dn(7,8) unfolding d'' by (simp add: requiredStringFields_def blank_def)
  then have r': "check_required requiredStringFields ?r = None"
    by (simp only: check_required_None_iff)
  have cp': "checks_pass ?r"
    using cp r' unfolding d'' by (simp add: checks_pass_def check_agenda_def check_tags_def)
  have t': "title ?r = Some t" unfolding d'' by (simp add: t)
  have sl: "step_slug ?r = (?r, None)"
    unfolding step_slug_titled[OF t'] unfolding d'' using assms(2) by (simp add: truthy_def)
  have sdt: "step_date P ?r = (?r, None)"
    unfolding d'' using dn(5,6,8) by (simp add: step_date_def)
  have stm: "step_time ?r = (?r, None)"
    unfolding d'' using ni by (simp add: step_time_def)
  show ?thesis unfolding preSave_checked[OF cp'] sl by (simp add: sdt stm)
qed

lemma preSave_flag: "preSave P doc = (doc', None) \<Longrightarrow> isModified_title doc' = isModified_title doc"
  using preSave_result[of P doc doc'] by auto

lemma preSave_idempotent:
  assumes "preSave P doc = (doc', None)"
  shows "preSave P doc' = (doc', None)"
proof -
  have "doc'\<lparr>isModified_title := isModified_title doc\<rparr> = doc'"
    using preSave_flag[OF assms] by (cases doc') simp
  then show ?thesis
    using preSave_idempotent_flag[OF assms, of "isModified_title doc"] by simp
qed

lemma event_setters_idem: "event_setters (event_setters doc) = event_setters doc"
  by (simp add: event_setters_def option.map_comp comp_def trim_idem)

lemma event_setters_normalized:
  "event_setters (doc\<lparr>slug := a, date := b, time := c\<rparr>)
     = (event_setters doc)\<lparr>slug := a, date := b, time := c\<rparr>"
  by (simp add: event_setters_def)

lemma event_setters_flag:
  "event_setters (doc\<lparr>isModified_title := b\<rparr>) = (event_setters doc)\<lparr>isModified_title := b\<rparr>"
  by (simp add: event_setters_def)

lemma event_invalid_flag: "event_invalid (doc\<lparr>isModified_title := b\<rparr>) = event_invalid doc"
  by (simp add: event_invalid_def)

lemma event_invalid_normalized:
  assumes "event_invalid doc = []" "b \<noteq> []" "c \<noteq> []"
  shows "event_invalid (doc\<lparr>slug := a, date := Some b, time := Some c\<rparr>) = []"
  using assms by (simp add: event_invalid_def required_string_Nil truthy_def)

text \<open>
  C7. A document the pipeline accepts is a fixed point of the pipeline: run again on its own
  result, the hook accepts it and leaves every field as it is, the slug, the date and the
  time included; and so does the whole of what runs before the write (the schema's setters,
  its validation and the hook). That is so with \<open>isModified('title')\<close> answering as it
  did on the first run, and also when it answers no on the second run (the title is not
  modified after a save).
\<close>

theorem prepareForPersist_idempotent:
  "(preSave P doc = (doc', None) \<longrightarrow> preSave P doc' = (doc', None))
   \<and> (prepareForPersist P doc = (doc', None) \<longrightarrow> prepareForPersist P doc' = (doc', None))
   \<and> (preSave P doc = (doc', None) \<and> (b \<longrightarrow> isModified_title doc) \<longrightarrow>
        preSave P (doc'\<lparr>isModified_title := b\<rparr>) = (doc'\<lparr>isModified_title := b\<rparr>, None))
   \<and> (prepareForPersist P doc = (doc', None) \<and> (b \<longrightarrow> isModified_title doc) \<longrightarrow>
        prepareForPersist P (doc'\<lparr>isModified_title := b\<rparr>)
          = (doc'\<lparr>isModified_title := b\<rparr>, None))"
proof -
  have 1: "preSave P doc = (doc', None) \<longrightarrow> preSave P doc' = (doc', None)"
    using preSave_idempotent by blast
  have 3: "preSave P doc = (doc', None) \<and> (b \<longrightarrow> isModified_title doc) \<longrightarrow>
        preSave P (doc'\<lparr>isModified_title := b\<rparr>) = (doc'\<lparr>isModified_title := b\<rparr>, None)"
    using preSave_idempotent_flag by blast
  have 4: "prepareForPersist P doc = (doc', None) \<and> (c \<longrightarrow> isModified_title doc) \<longrightarrow>
        prepareForPersist P (doc'\<lparr>isModified_title := c\<rparr>)
          = (doc'\<lparr>isModified_title := c\<rparr>, None)" for c
  proof
    assume a: "prepareForPersist P doc = (doc', None) \<and> (c \<longrightarrow> isModified_title doc)"
    let ?d = "event_setters doc"
    let ?r = "doc'\<lparr>isModified_title := c\<rparr>"
    have v: "event_invalid ?d = []" and p: "preSave P ?d = (doc', None)"
      using prepareForPersist_success[of P doc doc'] a by simp_all
    obtain t s ts tm n where
      s: "new_Date P s = Some ts" and tm: "normalizeTime tm = Some n"
      and d': "doc' = ?d\<lparr>slug := (if isModified_title ?d \<or> \<not> truthy (slug ?d)
                                    then Some (slugify t) else slug ?d),
                          date := Some (split_T_first (toISOString ts)),
                          time := Some n\<rparr>"
      using preSave_result[OF p] by blast
    obtain y m d where cv: "civil_from_day (ts div msPerDay) = (y, m, d)"
      by (cases "civil_from_day (ts div msPerDay)") auto
    note dn = date_normalized[OF s cv]
    have b: "split_T_first (toISOString ts) \<noteq> []" using dn(1,8) by simp
    have n: "n \<noteq> []" using tm by (rule normalizeTime_idem(2))
    have e': "event_setters doc' = doc'"
      unfolding d' event_setters_normalized event_setters_idem ..
    have e: "event_setters ?r = ?r"
      unfolding event_setters_flag e' ..
    have i': "event_invalid doc' = []"
      unfolding d' using v b n by (rule event_invalid_normalized)
    have i: "event_invalid ?r = []"
      unfolding event_invalid_flag by (rule i')
    have f: "c \<longrightarrow> isModified_title ?d" using a by (simp add: event_setters_fields)
    have "prepareForPersist P ?r = preSave P ?r"
      using prepareForPersist_valid[of ?r P] e i by simp
    then show "prepareForPersist P ?r = (?r, None)"
      using preSave_idempotent_flag[OF p f] by simp
  qed
  have 2: "prepareForPersist P doc = (doc', None) \<longrightarrow> prepareForPersist P doc' = (doc', None)"
  proof
    assume a: "prepareForPersist P doc = (doc', None)"
    then have p: "preSave P (event_setters doc) = (doc', None)"
      by (rule prepareForPersist_success(2))
    have "isModified_title doc' = isModified_title doc"
      using preSave_flag[OF p] by (simp add: event_setters_fields)
    then have "doc'\<lparr>isModified_title := isModified_title doc\<rparr> = doc'"
      by (cases doc') simp
    then show "prepareForPersist P doc' = (doc', None)"
      using 4[of "isModified_title doc"] a by simp
  qed
  show ?thesis by (intro conjI 1 2 3 4)
qed

theorem prepareForPersist_idempotent_witness:
  "preSave engine_utc sample_event
     = (sample_event\<lparr>slug := Some ''my-event-2024'', date := Some ''2024-03-05'',
                      time := Some ''09:30''\<rparr>, None)
   \<and> preSave engine_utc
        (sample_event\<lparr>slug := Some ''my-event-2024'', date := Some ''2024-03-05'',
                       time := Some ''09:30''\<rparr>)
     = (sample_event\<lparr>slug := Some ''my-event-2024'', date := Some ''2024-03-05'',
                      time := Some ''09:30''\<rparr>, None)
   \<and> prepareForPersist engine_utc (sample_event\<lparr>title := Some ''  My Event! 2024 ''\<rparr>)
     = (sample_event\<lparr>slug := Some ''my-event-2024'', date := Some ''2024-03-05'',
                      time := Some ''09:30''\<rparr>, None)
   \<and> prepareForPersist engine_utc
        (sample_event\<lparr>slug := Some ''my-event-2024'', date := Some ''2024-03-05'',
                       time := Some ''09:30''\<rparr>)
     = (sample_event\<lparr>slug := Some ''my-event-2024'', date := Some ''2024-03-05'',
                      time := Some ''09:30''\<rparr>, None)
   \<and> preSave engine_utc
        (sample_event\<lparr>slug := Some ''my-event-2024'', date := Some ''2024-03-05'',
                       time := Some ''09:30'', isModified_title := False\<rparr>)
     = (sample_event\<lparr>slug := Some ''my-event-2024'', date := Some ''2024-03-05'',
                      time := Some ''09:30'', isModified_title := False\<rparr>, None)
   \<and> prepareForPersist engine_utc
        (sample_event\<lparr>slug := Some ''my-event-2024'', date := Some ''2024-03-05'',
                       time := Some ''09:30'', isModified_title := False\<rparr>)
     = (sample_event\<lparr>slug := Some ''my-event-2024'', date := Some ''2024-03-05'',
                      time := Some ''09:30'', isModified_title := False\<rparr>, None)"
proof -
  let ?n = "sample_event\<lparr>slug := Some ''my-event-2024'', date := Some ''2024-03-05'',
                      time := Some ''09:30''\<rparr>"
  let ?padded = "sample_event\<lparr>title := Some ''  My Event! 2024 ''\<rparr>"
  have h: "preSave engine_utc sample_event = (?n, None)" by code_simp
  have p: "prepareForPersist engine_utc ?padded = (?n, None)" by code_simp
  have f: "False \<longrightarrow> isModified_title sample_event" by simp
  have f': "False \<longrightarrow> isModified_title ?padded" by simp
  note H = prepareForPersist_idempotent
    [where P = engine_utc and doc = sample_event and doc' = ?n and b = False]
  note Q = prepareForPersist_idempotent
    [where P = engine_utc and doc = ?padded and doc' = ?n and b = False]
  have h': "preSave engine_utc ?n = (?n, None)"
    using h by (rule H [THEN conjunct1, THEN mp])
  have p': "prepareForPersist engine_utc ?n = (?n, None)"
    using p by (rule Q [THEN conjunct2, THEN conjunct1, THEN mp])
  have h'': "preSave engine_utc (?n\<lparr>isModified_title := False\<rparr>)
               = (?n\<lparr>isModified_title := False\<rparr>, None)"
    by (rule H [THEN conjunct2, THEN conjunct2, THEN conjunct1, THEN mp]) (intro conjI h f)
  have p'': "prepareForPersist engine_utc (?n\<lparr>isModified_title := False\<rparr>)
               = (?n\<lparr>isModified_title := False\<rparr>, None)"
    by (rule Q [THEN conjunct2, THEN conjunct2, THEN conjunct2, THEN mp]) (intro conjI p f')
  show ?thesis by (intro conjI h h' p p' h'' p'')
qed

end
